theory Spec2Isabelle
  imports Main "HOL-Library.Char_ord" "HOL-Library.Sublist"
begin

section \<open>Byte strings\<close>

text \<open>
  Go strings are byte sequences; they are modelled as \<^typ>\<open>string\<close>, a list of 8-bit
  characters. The helpers of package \<^verbatim>\<open>strings\<close> that the crawler calls are written out
  below. Two of them consult the case tables of package \<^verbatim>\<open>unicode\<close> when the text holds
  a byte from 0x80 on, \<^verbatim>\<open>strings.ToLower\<close> and \<^verbatim>\<open>strings.EqualFold\<close>: for a text of ASCII
  bytes they are written out, and what they do beyond ASCII is a parameter of the model,
  about which nothing is assumed.
\<close>

definition isUpper :: "char \<Rightarrow> bool" where
  "isUpper c = (CHR ''A'' \<le> c \<and> c \<le> CHR ''Z'')"

definition isLower :: "char \<Rightarrow> bool" where
  "isLower c = (CHR ''a'' \<le> c \<and> c \<le> CHR ''z'')"

definition isDigit :: "char \<Rightarrow> bool" where
  "isDigit c = (CHR ''0'' \<le> c \<and> c \<le> CHR ''9'')"

definition isAlpha :: "char \<Rightarrow> bool" where
  "isAlpha c = (isLower c \<or> isUpper c)"

definition isAlnum :: "char \<Rightarrow> bool" where
  "isAlnum c = (isAlpha c \<or> isDigit c)"

definition lowerc :: "char \<Rightarrow> char" where
  "lowerc c = (if isUpper c then char_of (of_char c + (32::nat)) else c)"

text \<open>The letters A to Z folded byte by byte, every other byte kept.\<close>

definition lower_ascii :: "string \<Rightarrow> string" where
  "lower_ascii s = map lowerc s"

definition isASCII :: "string \<Rightarrow> bool" where
  "isASCII s = list_all (\<lambda>c. (of_char c :: nat) < 128) s"

text \<open>
  \<^verbatim>\<open>strings.ToLower\<close>: a text of ASCII bytes is folded byte by byte; any other text is
  mapped rune by rune with \<^verbatim>\<open>strings.Map(unicode.ToLower, s)\<close>, which is the parameter
  \<open>lw\<close>.
\<close>

definition ToLower :: "(string \<Rightarrow> string) \<Rightarrow> string \<Rightarrow> string" where
  "ToLower lw s = (if isASCII s then lower_ascii s else lw s)"

text \<open>
  \<^verbatim>\<open>strings.EqualFold\<close>: as long as both texts go on with an ASCII byte, the two bytes
  are compared up to the case of A to Z; from the first place where one of them has a
  byte from 0x80 on, the rest is compared under Unicode simple folding, which is the
  parameter \<open>ef\<close>.
\<close>

fun EqualFold :: "(string \<Rightarrow> string \<Rightarrow> bool) \<Rightarrow> string \<Rightarrow> string \<Rightarrow> bool" where
  "EqualFold ef [] [] = True"
| "EqualFold ef [] (b # bs) = False"
| "EqualFold ef (a # as) [] = False"
| "EqualFold ef (a # as) (b # bs) =
     (if (of_char a :: nat) \<ge> 128 \<or> (of_char b :: nat) \<ge> 128 then ef (a # as) (b # bs)
      else if lowerc a = lowerc b then EqualFold ef as bs
      else False)"

definition HasPrefix :: "string \<Rightarrow> string \<Rightarrow> bool" where
  "HasPrefix s p = (take (length p) s = p)"

definition HasSuffix :: "string \<Rightarrow> string \<Rightarrow> bool" where
  "HasSuffix s p = (length p \<le> length s \<and> drop (length s - length p) s = p)"

text \<open>
  \<^verbatim>\<open>strings.TrimSpace\<close> removes the leading and the trailing white space as
  \<^verbatim>\<open>unicode.IsSpace\<close> defines it: the runes U+0009 to U+000D, U+0020, U+0085, U+00A0,
  U+1680, U+2000 to U+200A, U+2028, U+2029, U+202F, U+205F and U+3000. \<open>white_space\<close>
  lists their UTF-8 encodings. A rune at the start (or at the end) of a text is one of
  them exactly when the text starts (or ends) with its encoding, so that the trimming is
  done on the bytes.
\<close>

definition white_space :: "string list" where
  "white_space =
     [[CHR 0x09], [CHR 0x0A], [CHR 0x0B], [CHR 0x0C], [CHR 0x0D], [CHR 0x20],
      [CHR 0xC2, CHR 0x85], [CHR 0xC2, CHR 0xA0], [CHR 0xE1, CHR 0x9A, CHR 0x80],
      [CHR 0xE2, CHR 0x80, CHR 0x80], [CHR 0xE2, CHR 0x80, CHR 0x81],
      [CHR 0xE2, CHR 0x80, CHR 0x82], [CHR 0xE2, CHR 0x80, CHR 0x83],
      [CHR 0xE2, CHR 0x80, CHR 0x84], [CHR 0xE2, CHR 0x80, CHR 0x85],
      [CHR 0xE2, CHR 0x80, CHR 0x86], [CHR 0xE2, CHR 0x80, CHR 0x87],
      [CHR 0xE2, CHR 0x80, CHR 0x88], [CHR 0xE2, CHR 0x80, CHR 0x89],
      [CHR 0xE2, CHR 0x80, CHR 0x8A], [CHR 0xE2, CHR 0x80, CHR 0xA8],
      [CHR 0xE2, CHR 0x80, CHR 0xA9], [CHR 0xE2, CHR 0x80, CHR 0xAF],
      [CHR 0xE2, CHR 0x81, CHR 0x9F], [CHR 0xE3, CHR 0x80, CHR 0x80]]"

lemma white_space_nonempty: "e \<in> set white_space \<Longrightarrow> e \<noteq> []"
  by (auto simp: white_space_def)

function TrimLeftSpace :: "string \<Rightarrow> string" where
  "TrimLeftSpace s =
     (case find (HasPrefix s) white_space of
        Some e \<Rightarrow> TrimLeftSpace (drop (length e) s)
      | None \<Rightarrow> s)"
  by pat_completeness auto
termination
proof (relation "measure length")
  show "wf (measure length)" by simp
next
  fix s e
  assume "find (HasPrefix s) white_space = Some e"
  then have "e \<in> set white_space" and "HasPrefix s e" by (auto simp: find_Some_iff)
  then have "e \<noteq> []" and "take (length e) s = e"
    by (simp_all add: white_space_nonempty HasPrefix_def)
  then have "s \<noteq> []" by auto
  with \<open>e \<noteq> []\<close> show "(drop (length e) s, s) \<in> measure length" by simp
qed

function TrimRightSpace :: "string \<Rightarrow> string" where
  "TrimRightSpace s =
     (case find (HasSuffix s) white_space of
        Some e \<Rightarrow> TrimRightSpace (take (length s - length e) s)
      | None \<Rightarrow> s)"
  by pat_completeness auto
termination
proof (relation "measure length")
  show "wf (measure length)" by simp
next
  fix s e
  assume "find (HasSuffix s) white_space = Some e"
  then have "e \<in> set white_space" and "HasSuffix s e" by (auto simp: find_Some_iff)
  then have "e \<noteq> []" and "length e \<le> length s"
    by (simp_all add: white_space_nonempty HasSuffix_def)
  then have "0 < length e \<and> length e \<le> length s" by simp
  then have "length s - length e < length s" by arith
  then show "(take (length s - length e) s, s) \<in> measure length" by simp
qed

declare TrimLeftSpace.simps [simp del] TrimRightSpace.simps [simp del]

definition TrimSpace :: "string \<Rightarrow> string" where
  "TrimSpace s = TrimRightSpace (TrimLeftSpace s)"

text \<open>
  \<^verbatim>\<open>strings.Trim(s, cutset)\<close> for a cutset of ASCII bytes (the crawler's is \<^verbatim>\<open>"-"\<close>):
  the bytes of the cutset are removed at both ends.
\<close>

definition TrimLeft :: "(char \<Rightarrow> bool) \<Rightarrow> string \<Rightarrow> string" where
  "TrimLeft p s = dropWhile p s"

definition TrimRight :: "(char \<Rightarrow> bool) \<Rightarrow> string \<Rightarrow> string" where
  "TrimRight p s = rev (dropWhile p (rev s))"

definition TrimFunc :: "(char \<Rightarrow> bool) \<Rightarrow> string \<Rightarrow> string" where
  "TrimFunc p s = TrimRight p (TrimLeft p s)"

definition Trim :: "string \<Rightarrow> string \<Rightarrow> string" where
  "Trim s cutset = TrimFunc (\<lambda>c. c \<in> set cutset) s"

definition TrimPrefix :: "string \<Rightarrow> string \<Rightarrow> string" where
  "TrimPrefix s p = (if HasPrefix s p then drop (length p) s else s)"

fun Contains :: "string \<Rightarrow> string \<Rightarrow> bool" where
  "Contains [] sub = (sub = [])"
| "Contains (c # cs) sub = (HasPrefix (c # cs) sub \<or> Contains cs sub)"

text \<open>
  \<^verbatim>\<open>strings.ReplaceAll(s, old, new)\<close> for a non-empty \<^verbatim>\<open>old\<close>: the occurrences are
  replaced from the left and do not overlap. (With an empty \<^verbatim>\<open>old\<close> Go inserts
  \<^verbatim>\<open>new\<close> around every rune; the crawler never does that, and the model returns \<^verbatim>\<open>s\<close>.)
\<close>

function ReplaceAll :: "string \<Rightarrow> string \<Rightarrow> string \<Rightarrow> string" where
  "ReplaceAll [] old new = []"
| "ReplaceAll (c # cs) old new =
     (if old \<noteq> [] \<and> HasPrefix (c # cs) old
      then new @ ReplaceAll (drop (length old) (c # cs)) old new
      else c # ReplaceAll cs old new)"
  by pat_completeness auto
termination
  by (relation "measure (\<lambda>(s, old, new). length s)") auto

text \<open>\<^verbatim>\<open>strings.Cut(s, sep)\<close> for a one-byte separator.\<close>

definition Cut :: "string \<Rightarrow> char \<Rightarrow> string \<times> string \<times> bool" where
  "Cut s sep = (takeWhile (\<lambda>c. c \<noteq> sep) s, drop 1 (dropWhile (\<lambda>c. c \<noteq> sep) s), sep \<in> set s)"

text \<open>\<^verbatim>\<open>strings.LastIndex(s, sep)\<close> for a one-byte separator; \<open>None\<close> stands for \<open>-1\<close>.\<close>

fun LastIndex :: "string \<Rightarrow> char \<Rightarrow> nat option" where
  "LastIndex [] sep = None"
| "LastIndex (c # cs) sep =
     (case LastIndex cs sep of
        Some i \<Rightarrow> Some (Suc i)
      | None \<Rightarrow> if c = sep then Some 0 else None)"

text \<open>\<^verbatim>\<open>Unique\<close> keeps the first occurrence of every string, in order.\<close>

fun Unique_from :: "string set \<Rightarrow> string list \<Rightarrow> string list" where
  "Unique_from keys [] = []"
| "Unique_from keys (s # ss) =
     (if s \<in> keys then Unique_from keys ss else s # Unique_from (insert s keys) ss)"

definition Unique :: "string list \<Rightarrow> string list" where
  "Unique ins = Unique_from {} ins"

fun contains :: "int list \<Rightarrow> int \<Rightarrow> bool" where
  "contains [] j = False"
| "contains (v # ii) j = (if v = j then True else contains ii j)"

section \<open>Regular expressions\<close>

text \<open>
  The patterns the crawler compiles with \<^verbatim>\<open>regexp.MustCompile\<close> are written as syntax
  trees. \<open>Cls p\<close> is one byte of a character class, \<open>Bol\<close> and \<open>Eol\<close> are \<^verbatim>\<open>^\<close> and
  \<^verbatim>\<open>$\<close> without the multi-line flag (beginning and end of the text).

  \<open>mt r b s\<close> runs the pattern \<open>r\<close> on the rest \<open>s\<close> of the text, where \<open>b\<close> says that
  \<open>s\<close> is the whole text, and lists what is left after every way of matching, in the
  order of preference of Go's leftmost-first semantics: the left branch of an
  alternation first, one more round of a (greedy) repetition first.
\<close>

datatype rexp =
    Eps
  | Cls "char \<Rightarrow> bool"
  | Seq rexp rexp
  | Alt rexp rexp
  | Star rexp
  | Bol
  | Eol

fun mt :: "rexp \<Rightarrow> bool \<Rightarrow> string \<Rightarrow> (bool \<times> string) list" where
  "mt Eps b s = [(b, s)]"
| "mt (Cls p) b s = (case s of [] \<Rightarrow> [] | c # cs \<Rightarrow> if p c then [(False, cs)] else [])"
| "mt (Seq r1 r2) b s = concat (map (\<lambda>(b', s'). mt r2 b' s') (mt r1 b s))"
| "mt (Alt r1 r2) b s = mt r1 b s @ mt r2 b s"
| "mt (Star r) b s =
     concat (map (\<lambda>(b', s'). if length s' < length s then mt (Star r) b' s' else [])
                 (mt r b s)) @ [(b, s)]"
| "mt Bol b s = (if b then [(b, s)] else [])"
| "mt Eol b s = (if s = [] then [(b, s)] else [])"

text \<open>The preferred match of \<open>r\<close> that starts at byte \<open>i\<close> of \<open>s\<close>: where it ends.\<close>

definition match_at :: "rexp \<Rightarrow> string \<Rightarrow> nat \<Rightarrow> nat option" where
  "match_at r s i =
     (case mt r (i = 0) (drop i s) of
        [] \<Rightarrow> None
      | (b', s') # _ \<Rightarrow> Some (length s - length s'))"

fun first_match :: "rexp \<Rightarrow> string \<Rightarrow> nat list \<Rightarrow> (nat \<times> nat) option" where
  "first_match r s [] = None"
| "first_match r s (i # is) =
     (case match_at r s i of
        Some e \<Rightarrow> Some (i, e)
      | None \<Rightarrow> first_match r s is)"

text \<open>The leftmost match at or after byte \<open>pos\<close>, as \<open>(start, end)\<close>.\<close>

definition doExecute :: "rexp \<Rightarrow> string \<Rightarrow> nat \<Rightarrow> (nat \<times> nat) option" where
  "doExecute r s pos = first_match r s [pos..<Suc (length s)]"

definition MatchString :: "rexp \<Rightarrow> string \<Rightarrow> bool" where
  "MatchString r s = (doExecute r s 0 \<noteq> None)"

definition FindStringIndex :: "rexp \<Rightarrow> string \<Rightarrow> (nat \<times> nat) option" where
  "FindStringIndex r s = doExecute r s 0"

declare mt.simps(5) [simp del]

lemma mt_Star_set:
  "set (mt (Star r) b s) =
     insert (b, s) (\<Union>(b1, s1) \<in> set (mt r b s). if length s1 < length s then set (mt (Star r) b1 s1) else {})"
  by (subst mt.simps(5)) (auto split: if_splits)

lemma mt_length: "(b', s') \<in> set (mt r b s) \<Longrightarrow> length s' \<le> length s"
proof (induction r b s arbitrary: b' s' rule: mt.induct)
  case (1 b s)
  then show ?case by simp
next
  case (2 p b s)
  then show ?case by (cases s) (auto split: if_splits)
next
  case (3 r1 r2 b s)
  from "3.prems" obtain b1 s1 where m1: "(b1, s1) \<in> set (mt r1 b s)"
    and m2: "(b', s') \<in> set (mt r2 b1 s1)" by auto
  from "3.IH"(1)[OF m1] "3.IH"(2)[OF m1 refl m2] show ?case by simp
next
  case (4 r1 r2 b s)
  then show ?case by auto
next
  case (5 r b s)
  from "5.prems" have "(b', s') = (b, s) \<or>
     (\<exists>b1 s1. (b1, s1) \<in> set (mt r b s) \<and> length s1 < length s \<and> (b', s') \<in> set (mt (Star r) b1 s1))"
    by (subst (asm) mt_Star_set) (auto split: if_splits)
  then show ?case
  proof
    assume "(b', s') = (b, s)"
    then show ?thesis by simp
  next
    assume "\<exists>b1 s1. (b1, s1) \<in> set (mt r b s) \<and> length s1 < length s \<and> (b', s') \<in> set (mt (Star r) b1 s1)"
    then obtain b1 s1 where m1: "(b1, s1) \<in> set (mt r b s)" and lt: "length s1 < length s"
      and m2: "(b', s') \<in> set (mt (Star r) b1 s1)" by blast
    from "5.IH"(2)[OF m1 refl lt m2] lt show ?thesis by simp
  qed
next
  case (6 b s)
  then show ?case by (simp split: if_splits)
next
  case (7 b s)
  then show ?case by (simp split: if_splits)
qed

lemma match_at_bounds: "match_at r s i = Some e \<Longrightarrow> i \<le> length s \<Longrightarrow> i \<le> e \<and> e \<le> length s"
proof -
  assume a: "match_at r s i = Some e" and il: "i \<le> length s"
  then obtain b' s' rest where m: "mt r (i = 0) (drop i s) = (b', s') # rest"
    and e: "e = length s - length s'"
    by (auto simp: match_at_def split: list.splits)
  from m have "(b', s') \<in> set (mt r (i = 0) (drop i s))" by simp
  from mt_length[OF this] have "length s' \<le> length s - i" by simp
  with e il show ?thesis by simp
qed

lemma first_match_bounds:
  "first_match r s is = Some (a, e) \<Longrightarrow> \<forall>i\<in>set is. pos \<le> i \<and> i \<le> length s
     \<Longrightarrow> pos \<le> a \<and> a \<le> e \<and> e \<le> length s"
proof (induction "is")
  case Nil
  then show ?case by simp
next
  case (Cons i "is")
  show ?case
  proof (cases "match_at r s i")
    case None
    with Cons show ?thesis by simp
  next
    case (Some e')
    with Cons.prems have ae: "a = i" "e = e'" by simp_all
    from Cons.prems(2) have "pos \<le> i" "i \<le> length s" by simp_all
    with match_at_bounds[OF Some] ae show ?thesis by simp
  qed
qed

lemma doExecute_bounds:
  "doExecute r s pos = Some (a, e) \<Longrightarrow> pos \<le> a \<and> a \<le> e \<and> e \<le> length s"
  unfolding doExecute_def by (erule first_match_bounds) auto

text \<open>
  \<^verbatim>\<open>allMatches\<close> of package \<^verbatim>\<open>regexp\<close>, behind \<^verbatim>\<open>FindAllString(s, -1)\<close>: successive
  matches that do not overlap; an empty match next to the match before it is dropped, and
  the search moves on by one byte after an empty match.
\<close>

function allMatches :: "rexp \<Rightarrow> string \<Rightarrow> nat \<Rightarrow> nat option \<Rightarrow> (nat \<times> nat) list" where
  "allMatches r s pos prevMatchEnd =
     (if pos \<le> length s then
        (case doExecute r s pos of
           None \<Rightarrow> []
         | Some (m0, m1) \<Rightarrow>
             (if m1 = pos \<and> Some m0 = prevMatchEnd then [] else [(m0, m1)])
               @ allMatches r s (if m1 = pos then pos + 1 else m1) (Some m1))
      else [])"
  by pat_completeness auto
termination
proof (relation "measure (\<lambda>(r, s, pos, prev). Suc (length s) - pos)")
  show "wf (measure (\<lambda>(r, s, pos, prev). Suc (length s) - pos))" by simp
next
  fix r s pos prevMatchEnd x2 x y
  assume "pos \<le> length s" and "doExecute r s pos = Some x2" and "(x, y) = x2"
  then have "doExecute r s pos = Some (x, y)" by simp
  from doExecute_bounds[OF this] \<open>pos \<le> length s\<close>
  show "((r, s, if y = pos then pos + 1 else y, Some y), r, s, pos, prevMatchEnd)
      \<in> measure (\<lambda>(r, s, pos, prev). Suc (length s) - pos)" by auto
qed

declare allMatches.simps [simp del]

definition FindAllString :: "rexp \<Rightarrow> string \<Rightarrow> string list" where
  "FindAllString r s = map (\<lambda>(m0, m1). take (m1 - m0) (drop m0 s)) (allMatches r s 0 None)"

subsection \<open>Pattern syntax\<close>

fun lit :: "string \<Rightarrow> rexp" where
  "lit [] = Eps"
| "lit (c # cs) = Seq (Cls (\<lambda>x. x = c)) (lit cs)"

text \<open>
  Under the flag \<^verbatim>\<open>(?i)\<close> a literal matches every rune of its orbit under Unicode simple
  folding. For an ASCII byte that is the byte in both letter cases, and two runes more:
  U+212A (the Kelvin sign, \<^verbatim>\<open>E2 84 AA\<close> in UTF-8) folds to \<^verbatim>\<open>k\<close> and U+017F (the long s,
  \<^verbatim>\<open>C5 BF\<close>) folds to \<^verbatim>\<open>s\<close>. \<open>chr_ci\<close> is one ASCII byte of a pattern under \<^verbatim>\<open>(?i)\<close>,
  \<open>lit_ci\<close> a literal of ASCII bytes, and \<open>cls_ci p\<close> a class of ASCII bytes that holds
  the letters \<^verbatim>\<open>k\<close> and \<^verbatim>\<open>s\<close>, such as \<^verbatim>\<open>[a-z0-9]\<close>.
\<close>

definition kelvin_sign :: string where
  "kelvin_sign = [CHR 0xE2, CHR 0x84, CHR 0xAA]"

definition long_s :: string where
  "long_s = [CHR 0xC5, CHR 0xBF]"

definition chr_ci :: "char \<Rightarrow> rexp" where
  "chr_ci c =
     (if lowerc c = CHR ''k'' then Alt (Cls (\<lambda>x. lowerc x = CHR ''k'')) (lit kelvin_sign)
      else if lowerc c = CHR ''s'' then Alt (Cls (\<lambda>x. lowerc x = CHR ''s'')) (lit long_s)
      else Cls (\<lambda>x. lowerc x = lowerc c))"

fun lit_ci :: "string \<Rightarrow> rexp" where
  "lit_ci [] = Eps"
| "lit_ci (c # cs) = Seq (chr_ci c) (lit_ci cs)"

definition cls_ci :: "(char \<Rightarrow> bool) \<Rightarrow> rexp" where
  "cls_ci p = Alt (Cls p) (Alt (lit long_s) (lit kelvin_sign))"

definition Opt :: "rexp \<Rightarrow> rexp" where
  "Opt r = Alt r Eps"

definition Plus :: "rexp \<Rightarrow> rexp" where
  "Plus r = Seq r (Star r)"

fun alts :: "rexp list \<Rightarrow> rexp" where
  "alts [] = Seq Bol (Cls (\<lambda>x. False))"
| "alts [r] = r"
| "alts (r # rs) = Alt r (alts rs)"

fun seqs :: "rexp list \<Rightarrow> rexp" where
  "seqs [] = Eps"
| "seqs [r] = r"
| "seqs (r # rs) = Seq r (seqs rs)"

text \<open>\<^verbatim>\<open>r{n}\<close> and the greedy \<^verbatim>\<open>r{0,n}\<close>, \<^verbatim>\<open>r{m,n}\<close>, \<^verbatim>\<open>r{m,}\<close>.\<close>

fun rep :: "nat \<Rightarrow> rexp \<Rightarrow> rexp" where
  "rep 0 r = Eps"
| "rep (Suc n) r = Seq r (rep n r)"

fun rep_upto :: "nat \<Rightarrow> rexp \<Rightarrow> rexp" where
  "rep_upto 0 r = Eps"
| "rep_upto (Suc n) r = Alt (Seq r (rep_upto n r)) Eps"

definition rep_range :: "nat \<Rightarrow> nat \<Rightarrow> rexp \<Rightarrow> rexp" where
  "rep_range m n r = Seq (rep m r) (rep_upto (n - m) r)"

definition rep_min :: "nat \<Rightarrow> rexp \<Rightarrow> rexp" where
  "rep_min m r = Seq (rep m r) (Star r)"

text \<open>
  \<^verbatim>\<open>regexp.QuoteMeta(text)\<close> escapes every metacharacter of \<^verbatim>\<open>text\<close>, so that the piece
  of pattern it returns matches the literal text: spliced into a pattern, it compiles to
  \<open>lit text\<close>.
\<close>

definition QuoteMeta :: "string \<Rightarrow> rexp" where
  "QuoteMeta text = lit text"

subsection \<open>What a pattern matches\<close>

text \<open>
  \<open>matches r b p rest\<close>: at a place of the text where \<open>b\<close> says that nothing comes
  before and \<open>p @ rest\<close> is what follows, the pattern \<open>r\<close> can match exactly \<open>p\<close>.
\<close>

definition matches :: "rexp \<Rightarrow> bool \<Rightarrow> string \<Rightarrow> string \<Rightarrow> bool" where
  "matches r b p rest = ((b \<and> p = [], rest) \<in> set (mt r b (p @ rest)))"

lemma mt_shape:
  "(b', s') \<in> set (mt r b s) \<Longrightarrow> \<exists>p. s = p @ s' \<and> b' = (b \<and> p = [])"
proof (induction r b s arbitrary: b' s' rule: mt.induct)
  case (1 b s)
  then show ?case by simp
next
  case (2 q b s)
  then show ?case by (cases s) (auto split: if_splits)
next
  case (3 r1 r2 b s)
  from "3.prems" obtain b1 s1 where m1: "(b1, s1) \<in> set (mt r1 b s)"
    and m2: "(b', s') \<in> set (mt r2 b1 s1)" by auto
  from "3.IH"(1)[OF m1] obtain p1 where p1: "s = p1 @ s1" "b1 = (b \<and> p1 = [])" by blast
  from "3.IH"(2)[OF m1 refl m2] obtain p2 where p2: "s1 = p2 @ s'" "b' = (b1 \<and> p2 = [])" by blast
  from p1 p2 have "s = (p1 @ p2) @ s' \<and> b' = (b \<and> p1 @ p2 = [])" by simp
  then show ?case by blast
next
  case (4 r1 r2 b s)
  then show ?case by auto
next
  case (5 r b s)
  from "5.prems" have "(b', s') = (b, s) \<or>
     (\<exists>b1 s1. (b1, s1) \<in> set (mt r b s) \<and> length s1 < length s \<and> (b', s') \<in> set (mt (Star r) b1 s1))"
    by (subst (asm) mt_Star_set) (auto split: if_splits)
  then show ?case
  proof
    assume "(b', s') = (b, s)"
    then have "s = [] @ s' \<and> b' = (b \<and> ([]::string) = [])" by simp
    then show ?thesis by blast
  next
    assume "\<exists>b1 s1. (b1, s1) \<in> set (mt r b s) \<and> length s1 < length s \<and> (b', s') \<in> set (mt (Star r) b1 s1)"
    then obtain b1 s1 where m1: "(b1, s1) \<in> set (mt r b s)" and lt: "length s1 < length s"
      and m2: "(b', s') \<in> set (mt (Star r) b1 s1)" by blast
    from "5.IH"(1)[OF m1] obtain p1 where p1: "s = p1 @ s1" "b1 = (b \<and> p1 = [])" by blast
    from "5.IH"(2)[OF m1 refl lt m2] obtain p2 where p2: "s1 = p2 @ s'" "b' = (b1 \<and> p2 = [])" by blast
    from p1 p2 have "s = (p1 @ p2) @ s' \<and> b' = (b \<and> p1 @ p2 = [])" by simp
    then show ?thesis by blast
  qed
next
  case (6 b s)
  then show ?case by (simp split: if_splits)
next
  case (7 b s)
  then show ?case by (simp split: if_splits)
qed

lemma mt_matches:
  "(b', s') \<in> set (mt r b s) \<longleftrightarrow> (\<exists>p. s = p @ s' \<and> b' = (b \<and> p = []) \<and> matches r b p s')"
  unfolding matches_def using mt_shape by blast

lemma matches_Eps [simp]: "matches Eps b p rest \<longleftrightarrow> p = []"
  by (auto simp: matches_def)

lemma matches_Cls [simp]: "matches (Cls q) b p rest \<longleftrightarrow> (\<exists>c. p = [c] \<and> q c)"
  by (cases p) (auto simp: matches_def)

lemma matches_Bol [simp]: "matches Bol b p rest \<longleftrightarrow> b \<and> p = []"
  by (auto simp: matches_def)

lemma matches_Eol [simp]: "matches Eol b p rest \<longleftrightarrow> p = [] \<and> rest = []"
  by (auto simp: matches_def)

lemma matches_Alt [simp]: "matches (Alt r1 r2) b p rest \<longleftrightarrow> matches r1 b p rest \<or> matches r2 b p rest"
  by (auto simp: matches_def)

lemma matches_Seq:
  "matches (Seq r1 r2) b p rest \<longleftrightarrow>
     (\<exists>p1 p2. p = p1 @ p2 \<and> matches r1 b p1 (p2 @ rest) \<and> matches r2 (b \<and> p1 = []) p2 rest)"
proof
  assume "matches (Seq r1 r2) b p rest"
  then obtain b1 s1 where m1: "(b1, s1) \<in> set (mt r1 b (p @ rest))"
    and m2: "(b \<and> p = [], rest) \<in> set (mt r2 b1 s1)"
    by (auto simp: matches_def)
  from m1 obtain p1 where p1: "p @ rest = p1 @ s1" "b1 = (b \<and> p1 = [])" "matches r1 b p1 s1"
    unfolding mt_matches by blast
  from m2 obtain p2 where p2: "s1 = p2 @ rest" "matches r2 b1 p2 rest"
    unfolding mt_matches by blast
  from p1(1) p2(1) have "p = p1 @ p2" by simp
  with p1 p2 show "\<exists>p1 p2. p = p1 @ p2 \<and> matches r1 b p1 (p2 @ rest) \<and> matches r2 (b \<and> p1 = []) p2 rest"
    by blast
next
  assume "\<exists>p1 p2. p = p1 @ p2 \<and> matches r1 b p1 (p2 @ rest) \<and> matches r2 (b \<and> p1 = []) p2 rest"
  then obtain p1 p2 where p: "p = p1 @ p2" and m1: "matches r1 b p1 (p2 @ rest)"
    and m2: "matches r2 (b \<and> p1 = []) p2 rest" by blast
  from m1 have "(b \<and> p1 = [], p2 @ rest) \<in> set (mt r1 b (p @ rest))" by (simp add: matches_def p)
  moreover from m2 have "(b \<and> p = [], rest) \<in> set (mt r2 (b \<and> p1 = []) (p2 @ rest))"
    by (auto simp: matches_def p)
  ultimately show "matches (Seq r1 r2) b p rest"
    unfolding matches_def by (auto simp: p intro!: bexI)
qed

lemma matches_Star:
  "matches (Star r) b p rest \<longleftrightarrow>
     p = [] \<or> (\<exists>p1 p2. p = p1 @ p2 \<and> p1 \<noteq> [] \<and> matches r b p1 (p2 @ rest)
                  \<and> matches (Star r) False p2 rest)"
proof
  assume "matches (Star r) b p rest"
  then have "(b \<and> p = [], rest) \<in> set (mt (Star r) b (p @ rest))" by (simp add: matches_def)
  then have "(b \<and> p = [], rest) = (b, p @ rest) \<or>
     (\<exists>b1 s1. (b1, s1) \<in> set (mt r b (p @ rest)) \<and> length s1 < length (p @ rest)
        \<and> (b \<and> p = [], rest) \<in> set (mt (Star r) b1 s1))"
    by (subst (asm) mt_Star_set) (auto split: if_splits)
  then show "p = [] \<or> (\<exists>p1 p2. p = p1 @ p2 \<and> p1 \<noteq> [] \<and> matches r b p1 (p2 @ rest)
                  \<and> matches (Star r) False p2 rest)"
  proof
    assume "(b \<and> p = [], rest) = (b, p @ rest)"
    then show ?thesis by simp
  next
    assume "\<exists>b1 s1. (b1, s1) \<in> set (mt r b (p @ rest)) \<and> length s1 < length (p @ rest)
        \<and> (b \<and> p = [], rest) \<in> set (mt (Star r) b1 s1)"
    then obtain b1 s1 where m1: "(b1, s1) \<in> set (mt r b (p @ rest))"
      and lt: "length s1 < length (p @ rest)"
      and m2: "(b \<and> p = [], rest) \<in> set (mt (Star r) b1 s1)" by blast
    from m1 obtain p1 where p1: "p @ rest = p1 @ s1" "b1 = (b \<and> p1 = [])" "matches r b p1 s1"
      unfolding mt_matches by blast
    from lt p1(1) have ne: "p1 \<noteq> []" by auto
    from m2 obtain p2 where p2: "s1 = p2 @ rest" "matches (Star r) b1 p2 rest"
      unfolding mt_matches by blast
    from p1(1) p2(1) have "p = p1 @ p2" by simp
    with p1 p2 ne show ?thesis by auto
  qed
next
  assume a: "p = [] \<or> (\<exists>p1 p2. p = p1 @ p2 \<and> p1 \<noteq> [] \<and> matches r b p1 (p2 @ rest)
                  \<and> matches (Star r) False p2 rest)"
  show "matches (Star r) b p rest"
  proof (cases "p = []")
    case True
    then show ?thesis unfolding matches_def by (subst mt_Star_set) simp
  next
    case False
    with a obtain p1 p2 where p: "p = p1 @ p2" and ne: "p1 \<noteq> []"
      and m1: "matches r b p1 (p2 @ rest)" and m2: "matches (Star r) False p2 rest" by blast
    from m1 ne have i1: "(False, p2 @ rest) \<in> set (mt r b (p @ rest))"
      by (simp add: matches_def p)
    from m2 have i2: "(False, rest) \<in> set (mt (Star r) False (p2 @ rest))"
      by (auto simp: matches_def)
    from ne have lt: "length (p2 @ rest) < length (p @ rest)" by (simp add: p)
    have "(False, rest) \<in> set (mt (Star r) b (p @ rest))"
      by (subst mt_Star_set) (use i1 i2 lt in \<open>auto intro!: bexI[of _ "(False, p2 @ rest)"]\<close>)
    with False show ?thesis by (simp add: matches_def)
  qed
qed

lemma first_match_None: "first_match r s is = None \<longleftrightarrow> (\<forall>i \<in> set is. match_at r s i = None)"
  by (induction "is") (auto split: option.splits)

lemma match_at_None: "match_at r s i = None \<longleftrightarrow> mt r (i = 0) (drop i s) = []"
  by (auto simp: match_at_def split: list.splits)

lemma MatchString_matches:
  "MatchString r s \<longleftrightarrow> (\<exists>pre p rest. s = pre @ p @ rest \<and> matches r (pre = []) p rest)"
proof
  assume "MatchString r s"
  then have "\<not> (\<forall>i \<in> set [0..<Suc (length s)]. match_at r s i = None)"
    unfolding MatchString_def doExecute_def first_match_None by simp
  then obtain i where "i \<in> set [0..<Suc (length s)]" and "match_at r s i \<noteq> None" by blast
  then have i: "i \<le> length s" and ne: "mt r (i = 0) (drop i s) \<noteq> []"
    unfolding match_at_None by (simp_all del: upt_Suc)
  from ne obtain b' s' where "(b', s') \<in> set (mt r (i = 0) (drop i s))"
    by (cases "mt r (i = 0) (drop i s)") auto
  then obtain p where p: "drop i s = p @ s'" "matches r (i = 0) p s'"
    unfolding mt_matches by blast
  have e1: "s = take i s @ p @ s'" using p(1) append_take_drop_id[of i s] by simp
  from i have e2: "(take i s = []) = (i = 0)" by (cases s) auto
  from p(2) e2 have "matches r (take i s = []) p s'" by simp
  with e1 show "\<exists>pre p rest. s = pre @ p @ rest \<and> matches r (pre = []) p rest" by blast
next
  assume "\<exists>pre p rest. s = pre @ p @ rest \<and> matches r (pre = []) p rest"
  then obtain pre p rest where s: "s = pre @ p @ rest" and m: "matches r (pre = []) p rest"
    by blast
  let ?i = "length pre"
  have d: "drop ?i s = p @ rest" by (simp add: s)
  have f: "(?i = 0) = (pre = [])" by simp
  from m have "(pre = [] \<and> p = [], rest) \<in> set (mt r (?i = 0) (drop ?i s))"
    by (simp add: matches_def d)
  then have "mt r (?i = 0) (drop ?i s) \<noteq> []" by auto
  moreover have "?i \<in> set [0..<Suc (length s)]" by (simp add: s)
  ultimately have "\<exists>i \<in> set [0..<Suc (length s)]. match_at r s i \<noteq> None"
    unfolding match_at_None by blast
  then have "\<not> (\<forall>i \<in> set [0..<Suc (length s)]. match_at r s i = None)" by meson
  then show "MatchString r s"
    by (simp only: MatchString_def doExecute_def first_match_None not_False_eq_True)
qed

lemma matches_Seq_Cls:
  "matches (Seq (Cls q) r) b p rest \<longleftrightarrow> (\<exists>c p2. p = c # p2 \<and> q c \<and> matches r False p2 rest)"
proof
  assume "matches (Seq (Cls q) r) b p rest"
  then obtain p1 p2 where "p = p1 @ p2" "matches (Cls q) b p1 (p2 @ rest)"
    "matches r (b \<and> p1 = []) p2 rest" unfolding matches_Seq by blast
  then show "\<exists>c p2. p = c # p2 \<and> q c \<and> matches r False p2 rest" by auto
next
  assume "\<exists>c p2. p = c # p2 \<and> q c \<and> matches r False p2 rest"
  then obtain c p2 where "p = [c] @ p2" "q c" "matches r False p2 rest" by auto
  then have "p = [c] @ p2 \<and> matches (Cls q) b [c] (p2 @ rest) \<and> matches r (b \<and> [c] = []) p2 rest"
    by simp
  then show "matches (Seq (Cls q) r) b p rest" unfolding matches_Seq by blast
qed

lemma matches_lit [simp]: "matches (lit w) b p rest \<longleftrightarrow> p = w"
  by (induction w arbitrary: b p) (auto simp: matches_Seq_Cls lit.simps)

text \<open>
  \<open>fold_match w p\<close>: the text \<open>p\<close> is the ASCII literal \<open>w\<close> up to simple case folding, that
  is, byte for byte up to the case of A to Z, where a Kelvin sign may stand for a \<^verbatim>\<open>k\<close>
  and a long s for an \<^verbatim>\<open>s\<close>.
\<close>

fun fold_match :: "string \<Rightarrow> string \<Rightarrow> bool" where
  "fold_match [] p = (p = [])"
| "fold_match (c # cs) p =
     ((case p of [] \<Rightarrow> False | x # xs \<Rightarrow> lowerc x = lowerc c \<and> fold_match cs xs)
      \<or> (lowerc c = CHR ''k'' \<and> HasPrefix p kelvin_sign \<and> fold_match cs (drop 3 p))
      \<or> (lowerc c = CHR ''s'' \<and> HasPrefix p long_s \<and> fold_match cs (drop 2 p)))"

lemma matches_chr_ci:
  "matches (chr_ci c) b p rest \<longleftrightarrow>
     (\<exists>x. p = [x] \<and> lowerc x = lowerc c) \<or> (lowerc c = CHR ''k'' \<and> p = kelvin_sign)
       \<or> (lowerc c = CHR ''s'' \<and> p = long_s)"
proof -
  have ks: "CHR ''k'' \<noteq> CHR ''s''" by simp
  show ?thesis using ks by (auto simp: chr_ci_def)
qed

lemma matches_lit_ci [simp]:
  "matches (lit_ci w) b p rest \<longleftrightarrow> fold_match w p"
proof (induction w arbitrary: b p)
  case Nil
  then show ?case by (simp add: lit_ci.simps)
next
  case (Cons c cs)
  have k: "length kelvin_sign = 3" and l: "length long_s = 2"
    by (simp_all add: kelvin_sign_def long_s_def)
  show ?case
  proof
    assume "matches (lit_ci (c # cs)) b p rest"
    then obtain p1 p2 where p: "p = p1 @ p2" and m1: "matches (chr_ci c) b p1 (p2 @ rest)"
      and m2: "fold_match cs p2"
      unfolding lit_ci.simps matches_Seq Cons by blast
    from m1 consider x where "p1 = [x]" "lowerc x = lowerc c"
      | "lowerc c = CHR ''k''" "p1 = kelvin_sign" | "lowerc c = CHR ''s''" "p1 = long_s"
      unfolding matches_chr_ci by blast
    then show "fold_match (c # cs) p"
    proof cases
      case 1
      with p m2 show ?thesis by simp
    next
      case 2
      with p m2 k show ?thesis by (simp add: HasPrefix_def)
    next
      case 3
      with p m2 l show ?thesis by (simp add: HasPrefix_def)
    qed
  next
    assume "fold_match (c # cs) p"
    then consider x xs where "p = x # xs" "lowerc x = lowerc c" "fold_match cs xs"
      | "lowerc c = CHR ''k''" "HasPrefix p kelvin_sign" "fold_match cs (drop 3 p)"
      | "lowerc c = CHR ''s''" "HasPrefix p long_s" "fold_match cs (drop 2 p)"
      by (auto split: list.splits)
    then show "matches (lit_ci (c # cs)) b p rest"
    proof cases
      case 1
      then have "p = [x] @ xs \<and> matches (chr_ci c) b [x] (xs @ rest)
          \<and> matches (lit_ci cs) (b \<and> [x] = []) xs rest"
        by (simp add: matches_chr_ci Cons)
      then show ?thesis unfolding lit_ci.simps matches_Seq by blast
    next
      case 2
      then have "p = kelvin_sign @ drop 3 p"
        using k by (metis HasPrefix_def append_take_drop_id)
      with 2 have "p = kelvin_sign @ drop 3 p
          \<and> matches (chr_ci c) b kelvin_sign (drop 3 p @ rest)
          \<and> matches (lit_ci cs) (b \<and> kelvin_sign = []) (drop 3 p) rest"
        by (simp add: matches_chr_ci Cons)
      then show ?thesis unfolding lit_ci.simps matches_Seq by blast
    next
      case 3
      then have "p = long_s @ drop 2 p"
        using l by (metis HasPrefix_def append_take_drop_id)
      with 3 have "p = long_s @ drop 2 p
          \<and> matches (chr_ci c) b long_s (drop 2 p @ rest)
          \<and> matches (lit_ci cs) (b \<and> long_s = []) (drop 2 p) rest"
        by (simp add: matches_chr_ci Cons)
      then show ?thesis unfolding lit_ci.simps matches_Seq by blast
    qed
  qed
qed

declare fold_match.simps [simp del]


lemma fold_match_no_ks:
  assumes "\<forall>c \<in> set w. lowerc c \<noteq> CHR ''k'' \<and> lowerc c \<noteq> CHR ''s''"
  shows "fold_match w p \<longleftrightarrow> length p = length w \<and> lower_ascii p = lower_ascii w"
  using assms
proof (induction w arbitrary: p)
  case Nil
  then show ?case by (auto simp: fold_match.simps lower_ascii_def)
next
  case (Cons c cs)
  then have IH: "\<And>q. fold_match cs q \<longleftrightarrow> length q = length cs \<and> lower_ascii q = lower_ascii cs"
    by simp
  from Cons.prems have "lowerc c \<noteq> CHR ''k''" "lowerc c \<noteq> CHR ''s''" by simp_all
  then show ?case by (cases p) (auto simp: fold_match.simps IH lower_ascii_def)
qed

declare lit.simps [simp del] lit_ci.simps [simp del]

lemma matches_alts: "rs \<noteq> [] \<Longrightarrow> matches (alts rs) b p rest \<longleftrightarrow> (\<exists>r \<in> set rs. matches r b p rest)"
  by (induction rs rule: alts.induct) auto

lemma matches_Opt [simp]: "matches (Opt r) b p rest \<longleftrightarrow> matches r b p rest \<or> p = []"
  by (auto simp: Opt_def)

lemma matches_Star_Cls_Cons:
  "matches (Star (Cls q)) b (c # cs) rest \<longleftrightarrow> q c \<and> matches (Star (Cls q)) False cs rest"
proof
  assume "matches (Star (Cls q)) b (c # cs) rest"
  then obtain p1 p2 where "c # cs = p1 @ p2" "p1 \<noteq> []" "matches (Cls q) b p1 (p2 @ rest)"
    "matches (Star (Cls q)) False p2 rest"
    by (subst (asm) matches_Star) auto
  then show "q c \<and> matches (Star (Cls q)) False cs rest" by auto
next
  assume "q c \<and> matches (Star (Cls q)) False cs rest"
  then have "c # cs = [c] @ cs \<and> [c] \<noteq> [] \<and> matches (Cls q) b [c] (cs @ rest)
     \<and> matches (Star (Cls q)) False cs rest" by simp
  then show "matches (Star (Cls q)) b (c # cs) rest"
    by (subst matches_Star) blast
qed

lemma matches_Star_Cls [simp]: "matches (Star (Cls q)) b p rest \<longleftrightarrow> (\<forall>c \<in> set p. q c)"
proof (induction p arbitrary: b)
  case Nil
  then show ?case by (subst matches_Star) simp
next
  case (Cons c cs)
  show ?case by (simp add: matches_Star_Cls_Cons Cons)
qed

lemma matches_Plus_Cls [simp]:
  "matches (Plus (Cls q)) b p rest \<longleftrightarrow> p \<noteq> [] \<and> (\<forall>c \<in> set p. q c)"
  by (cases p) (auto simp: Plus_def matches_Seq_Cls)

section \<open>URLs: package net/url\<close>

text \<open>
  The crawler parses, edits and prints URLs with Go's \<^verbatim>\<open>net/url\<close>. Its \<^verbatim>\<open>URL\<close> struct,
  \<^verbatim>\<open>Parse\<close>, \<^verbatim>\<open>String\<close>, \<^verbatim>\<open>Hostname\<close> and \<^verbatim>\<open>Port\<close> are written out here as they are
  in the Go releases 1.19 to 1.25 (the README asks for Go 1.19 or later). An error return
  is \<open>None\<close>.
\<close>

datatype encoding =
    encodePath
  | encodePathSegment
  | encodeHost
  | encodeZone
  | encodeUserPassword
  | encodeQueryComponent
  | encodeFragment

record Userinfo =
  username :: string
  password :: string
  passwordSet :: bool

record URL =
  Scheme :: string
  Opaque :: string
  User :: "Userinfo option"
  Host :: string
  Path :: string
  RawPath :: string
  OmitHost :: bool
  ForceQuery :: bool
  RawQuery :: string
  Fragment :: string
  RawFragment :: string

definition emptyURL :: URL where
  "emptyURL = \<lparr>Scheme = [], Opaque = [], User = None, Host = [], Path = [], RawPath = [],
     OmitHost = False, ForceQuery = False, RawQuery = [], Fragment = [], RawFragment = []\<rparr>"

definition ishex :: "char \<Rightarrow> bool" where
  "ishex c = (isDigit c \<or> (CHR ''a'' \<le> c \<and> c \<le> CHR ''f'') \<or> (CHR ''A'' \<le> c \<and> c \<le> CHR ''F''))"

definition unhex :: "char \<Rightarrow> nat" where
  "unhex c =
     (if isDigit c then of_char c - of_char CHR ''0''
      else if CHR ''a'' \<le> c \<and> c \<le> CHR ''f'' then of_char c - of_char CHR ''a'' + 10
      else if CHR ''A'' \<le> c \<and> c \<le> CHR ''F'' then of_char c - of_char CHR ''A'' + 10
      else 0)"

definition upperhex :: string where
  "upperhex = ''0123456789ABCDEF''"

definition shouldEscape :: "char \<Rightarrow> encoding \<Rightarrow> bool" where
  "shouldEscape c mode =
     (if isAlnum c then False
      else if (mode = encodeHost \<or> mode = encodeZone) \<and> c \<in> set ''!$&'()*+,;=:[]<>\"''
        then False
      else if c \<in> set ''-_.~'' then False
      else if c \<in> set ''$&+,/:;=?@'' \<and> mode = encodePath then c = CHR ''?''
      else if c \<in> set ''$&+,/:;=?@'' \<and> mode = encodePathSegment
        then c = CHR ''/'' \<or> c = CHR '';'' \<or> c = CHR '','' \<or> c = CHR ''?''
      else if c \<in> set ''$&+,/:;=?@'' \<and> mode = encodeUserPassword
        then c = CHR ''@'' \<or> c = CHR ''/'' \<or> c = CHR ''?'' \<or> c = CHR '':''
      else if c \<in> set ''$&+,/:;=?@'' \<and> mode = encodeQueryComponent then True
      else if c \<in> set ''$&+,/:;=?@'' \<and> mode = encodeFragment then False
      else if mode = encodeFragment \<and> c \<in> set ''!()*'' then False
      else True)"

text \<open>
  \<^verbatim>\<open>unescape\<close> first walks the string and rejects a malformed \<^verbatim>\<open>%\<close> escape, an escape
  the host may not use, and a byte the host may not hold (\<open>unescape_ok\<close>); then it decodes
  (\<open>unescape_go\<close>).
\<close>

fun unescape_ok :: "encoding \<Rightarrow> string \<Rightarrow> bool" where
  "unescape_ok mode [] = True"
| "unescape_ok mode (c # cs) =
     (if c = CHR ''%'' then
        (case cs of
           h1 # h2 # rest \<Rightarrow>
             ishex h1 \<and> ishex h2
             \<and> \<not> (mode = encodeHost \<and> unhex h1 < 8 \<and> [c, h1, h2] \<noteq> ''%25'')
             \<and> \<not> (mode = encodeZone \<and> [c, h1, h2] \<noteq> ''%25''
                   \<and> char_of (unhex h1 * 16 + unhex h2) \<noteq> CHR '' ''
                   \<and> shouldEscape (char_of (unhex h1 * 16 + unhex h2)) encodeHost)
             \<and> unescape_ok mode rest
         | _ \<Rightarrow> False)
      else if c = CHR ''+'' then unescape_ok mode cs
      else if (mode = encodeHost \<or> mode = encodeZone) \<and> (of_char c :: nat) < 128
              \<and> shouldEscape c encodeHost then False
      else unescape_ok mode cs)"

fun unescape_go :: "encoding \<Rightarrow> string \<Rightarrow> string" where
  "unescape_go mode [] = []"
| "unescape_go mode (c # cs) =
     (if c = CHR ''%'' then
        (case cs of
           h1 # h2 # rest \<Rightarrow> char_of (unhex h1 * 16 + unhex h2) # unescape_go mode rest
         | _ \<Rightarrow> c # unescape_go mode cs)
      else if c = CHR ''+'' then
        (if mode = encodeQueryComponent then CHR '' '' else CHR ''+'') # unescape_go mode cs
      else c # unescape_go mode cs)"

definition unescape :: "string \<Rightarrow> encoding \<Rightarrow> string option" where
  "unescape s mode = (if unescape_ok mode s then Some (unescape_go mode s) else None)"

fun escape :: "string \<Rightarrow> encoding \<Rightarrow> string" where
  "escape [] mode = []"
| "escape (c # cs) mode =
     (if shouldEscape c mode then
        (if c = CHR '' '' \<and> mode = encodeQueryComponent then CHR ''+'' # escape cs mode
         else CHR ''%'' # upperhex ! ((of_char c :: nat) div 16)
                # upperhex ! ((of_char c :: nat) mod 16) # escape cs mode)
      else c # escape cs mode)"

definition QueryUnescape :: "string \<Rightarrow> string option" where
  "QueryUnescape s = unescape s encodeQueryComponent"

definition stringContainsCTLByte :: "string \<Rightarrow> bool" where
  "stringContainsCTLByte s = (\<exists>b \<in> set s. (of_char b :: nat) < 32 \<or> (of_char b :: nat) = 127)"

text \<open>
  \<^verbatim>\<open>getScheme\<close>: \<open>acc\<close> holds the bytes before the current one, so that \<open>acc = []\<close> is the
  source's \<^verbatim>\<open>i == 0\<close>. The result is the scheme and the rest; \<open>None\<close> is the error
  "missing protocol scheme".
\<close>

fun getScheme_from :: "string \<Rightarrow> string \<Rightarrow> string \<Rightarrow> (string \<times> string) option" where
  "getScheme_from rawURL acc [] = Some ([], rawURL)"
| "getScheme_from rawURL acc (c # cs) =
     (if isAlpha c then getScheme_from rawURL (acc @ [c]) cs
      else if isDigit c \<or> c = CHR ''+'' \<or> c = CHR ''-'' \<or> c = CHR ''.'' then
        (if acc = [] then Some ([], rawURL) else getScheme_from rawURL (acc @ [c]) cs)
      else if c = CHR '':'' then
        (if acc = [] then None else Some (acc, cs))
      else Some ([], rawURL))"

definition getScheme :: "string \<Rightarrow> (string \<times> string) option" where
  "getScheme rawURL = getScheme_from rawURL [] rawURL"

definition validOptionalPort :: "string \<Rightarrow> bool" where
  "validOptionalPort port =
     (case port of
        [] \<Rightarrow> True
      | c # ds \<Rightarrow> c = CHR '':'' \<and> (\<forall>b \<in> set ds. isDigit b))"

definition validUserinfo :: "string \<Rightarrow> bool" where
  "validUserinfo s = (\<forall>r \<in> set s. isAlnum r \<or> r \<in> set ''-._:~!$&'()*+,;=%@'')"

text \<open>\<^verbatim>\<open>strings.Index(s, "%25")\<close>.\<close>

fun Index :: "string \<Rightarrow> string \<Rightarrow> nat option" where
  "Index [] sub = (if sub = [] then Some 0 else None)"
| "Index (c # cs) sub =
     (if HasPrefix (c # cs) sub then Some 0 else map_option Suc (Index cs sub))"

definition parseHost :: "string \<Rightarrow> string option" where
  "parseHost host =
     (if HasPrefix host ''['' then
        (case LastIndex host CHR '']'' of
           None \<Rightarrow> None
         | Some i \<Rightarrow>
             if \<not> validOptionalPort (drop (i + 1) host) then None
             else
               (case Index (take i host) ''%25'' of
                  Some zone \<Rightarrow>
                    (case unescape (take zone host) encodeHost of
                       None \<Rightarrow> None
                     | Some host1 \<Rightarrow>
                         (case unescape (drop zone (take i host)) encodeZone of
                            None \<Rightarrow> None
                          | Some host2 \<Rightarrow>
                              (case unescape (drop i host) encodeHost of
                                 None \<Rightarrow> None
                               | Some host3 \<Rightarrow> Some (host1 @ host2 @ host3))))
                | None \<Rightarrow> unescape host encodeHost))
      else
        (case LastIndex host CHR '':'' of
           Some i \<Rightarrow>
             if \<not> validOptionalPort (drop i host) then None else unescape host encodeHost
         | None \<Rightarrow> unescape host encodeHost))"

definition parseAuthority :: "string \<Rightarrow> (Userinfo option \<times> string) option" where
  "parseAuthority authority =
     (case LastIndex authority CHR ''@'' of
        None \<Rightarrow> map_option (\<lambda>host. (None, host)) (parseHost authority)
      | Some i \<Rightarrow>
          (case parseHost (drop (i + 1) authority) of
             None \<Rightarrow> None
           | Some host \<Rightarrow>
               (let userinfo = take i authority in
                if \<not> validUserinfo userinfo then None
                else if CHR '':'' \<notin> set userinfo then
                  (case unescape userinfo encodeUserPassword of
                     None \<Rightarrow> None
                   | Some u \<Rightarrow>
                       Some (Some \<lparr>username = u, password = [], passwordSet = False\<rparr>, host))
                else
                  (case Cut userinfo CHR '':'' of
                     (username0, password0, _) \<Rightarrow>
                       (case unescape username0 encodeUserPassword of
                          None \<Rightarrow> None
                        | Some u \<Rightarrow>
                            (case unescape password0 encodeUserPassword of
                               None \<Rightarrow> None
                             | Some pw \<Rightarrow>
                                 Some (Some \<lparr>username = u, password = pw, passwordSet = True\<rparr>,
                                       host)))))))"

definition setPath :: "URL \<Rightarrow> string \<Rightarrow> URL option" where
  "setPath u p =
     (case unescape p encodePath of
        None \<Rightarrow> None
      | Some path \<Rightarrow>
          Some (u\<lparr>Path := path, RawPath := (if p = escape path encodePath then [] else p)\<rparr>))"

definition setFragment :: "URL \<Rightarrow> string \<Rightarrow> URL option" where
  "setFragment u f =
     (case unescape f encodeFragment of
        None \<Rightarrow> None
      | Some frag \<Rightarrow>
          Some (u\<lparr>Fragment := frag,
                  RawFragment := (if f = escape frag encodeFragment then [] else f)\<rparr>))"

text \<open>
  \<^verbatim>\<open>parse(rawURL, viaRequest)\<close> with \<^verbatim>\<open>viaRequest = false\<close>, as \<^verbatim>\<open>Parse\<close> calls it. The
  scheme \<^verbatim>\<open>getScheme\<close> returns holds ASCII letters, digits, \<^verbatim>\<open>+\<close>, \<^verbatim>\<open>-\<close> and \<^verbatim>\<open>.\<close> only, so
  that \<^verbatim>\<open>strings.ToLower\<close> folds it byte by byte.
\<close>

definition parse :: "string \<Rightarrow> URL option" where
  "parse rawURL =
     (if stringContainsCTLByte rawURL then None
      else if rawURL = ''*'' then Some (emptyURL\<lparr>Path := ''*''\<rparr>)
      else
        (case getScheme rawURL of
           None \<Rightarrow> None
         | Some (scheme0, rest0) \<Rightarrow>
             (let scheme = lower_ascii scheme0;
                  force = (HasSuffix rest0 ''?'' \<and> count_list rest0 CHR ''?'' = 1);
                  rest = (if force then butlast rest0 else fst (Cut rest0 CHR ''?''));
                  query = (if force then [] else fst (snd (Cut rest0 CHR ''?'')));
                  url = emptyURL\<lparr>Scheme := scheme, ForceQuery := force, RawQuery := query\<rparr>
              in
                if \<not> HasPrefix rest ''/'' \<and> scheme \<noteq> [] then Some (url\<lparr>Opaque := rest\<rparr>)
                else if \<not> HasPrefix rest ''/'' \<and> CHR '':'' \<in> set (fst (Cut rest CHR ''/''))
                  then None
                else if (scheme \<noteq> [] \<or> \<not> HasPrefix rest ''///'') \<and> HasPrefix rest ''//'' then
                  (let authority0 = drop 2 rest;
                       authority = takeWhile (\<lambda>c. c \<noteq> CHR ''/'') authority0;
                       rest' = dropWhile (\<lambda>c. c \<noteq> CHR ''/'') authority0
                   in
                     (case parseAuthority authority of
                        None \<Rightarrow> None
                      | Some (user, host) \<Rightarrow> setPath (url\<lparr>User := user, Host := host\<rparr>) rest'))
                else if scheme \<noteq> [] \<and> HasPrefix rest ''/'' then
                  setPath (url\<lparr>OmitHost := True\<rparr>) rest
                else setPath url rest)))"

definition Parse :: "string \<Rightarrow> URL option" where
  "Parse rawURL =
     (case Cut rawURL CHR ''#'' of
        (u, frag, _) \<Rightarrow>
          (case parse u of
             None \<Rightarrow> None
           | Some url \<Rightarrow> if frag = [] then Some url else setFragment url frag))"

definition Userinfo_String :: "Userinfo \<Rightarrow> string" where
  "Userinfo_String ui =
     escape (username ui) encodeUserPassword
       @ (if passwordSet ui then '':'' @ escape (password ui) encodeUserPassword else [])"

definition validEncoded :: "string \<Rightarrow> encoding \<Rightarrow> bool" where
  "validEncoded s mode =
     (\<forall>c \<in> set s. c \<in> set ''!$&'()*+,;=:@'' \<or> c \<in> set ''[]'' \<or> c = CHR ''%''
        \<or> \<not> shouldEscape c mode)"

definition EscapedPath :: "URL \<Rightarrow> string" where
  "EscapedPath u =
     (if RawPath u \<noteq> [] \<and> validEncoded (RawPath u) encodePath
         \<and> unescape (RawPath u) encodePath = Some (Path u) then RawPath u
      else if Path u = ''*'' then ''*''
      else escape (Path u) encodePath)"

definition EscapedFragment :: "URL \<Rightarrow> string" where
  "EscapedFragment u =
     (if RawFragment u \<noteq> [] \<and> validEncoded (RawFragment u) encodeFragment
         \<and> unescape (RawFragment u) encodeFragment = Some (Fragment u) then RawFragment u
      else escape (Fragment u) encodeFragment)"

text \<open>\<^verbatim>\<open>(*URL).String\<close>; \<open>buf\<close> is the builder's content so far.\<close>

definition String :: "URL \<Rightarrow> string" where
  "String u =
     (let buf0 = (if Scheme u \<noteq> [] then Scheme u @ '':'' else []);
          buf1 =
            (if Opaque u \<noteq> [] then buf0 @ Opaque u
             else
               (let buf = buf0 @
                      (if Scheme u \<noteq> [] \<or> Host u \<noteq> [] \<or> User u \<noteq> None then
                         (if OmitHost u \<and> Host u = [] \<and> User u = None then []
                          else
                            (if Host u \<noteq> [] \<or> Path u \<noteq> [] \<or> User u \<noteq> None then ''//'' else [])
                            @ (case User u of None \<Rightarrow> [] | Some ui \<Rightarrow> Userinfo_String ui @ ''@'')
                            @ (if Host u \<noteq> [] then escape (Host u) encodeHost else []))
                       else []);
                    path = EscapedPath u;
                    buf = buf @ (if path \<noteq> [] \<and> hd path \<noteq> CHR ''/'' \<and> Host u \<noteq> [] then ''/'' else []);
                    buf = buf @ (if buf = [] \<and> CHR '':'' \<in> set (fst (Cut path CHR ''/''))
                                 then ''./'' else [])
                in buf @ path));
          buf2 = buf1 @ (if ForceQuery u \<or> RawQuery u \<noteq> [] then ''?'' @ RawQuery u else [])
      in buf2 @ (if Fragment u \<noteq> [] then ''#'' @ EscapedFragment u else []))"

definition splitHostPort :: "string \<Rightarrow> string \<times> string" where
  "splitHostPort hostPort =
     (let (host, port) =
            (case LastIndex hostPort CHR '':'' of
               Some colon \<Rightarrow>
                 if validOptionalPort (drop colon hostPort)
                 then (take colon hostPort, drop (colon + 1) hostPort)
                 else (hostPort, [])
             | None \<Rightarrow> (hostPort, []))
      in (if HasPrefix host ''['' \<and> HasSuffix host '']''
          then take (length host - 2) (drop 1 host) else host, port))"

definition Hostname :: "URL \<Rightarrow> string" where
  "Hostname u = fst (splitHostPort (Host u))"

definition Port :: "URL \<Rightarrow> string" where
  "Port u = snd (splitHostPort (Host u))"

text \<open>\<^verbatim>\<open>path.Ext\<close>: the suffix of the last path element from its last dot on.\<close>

definition Ext :: "string \<Rightarrow> string" where
  "Ext path =
     (let elem = takeWhile (\<lambda>c. c \<noteq> CHR ''/'') (rev path)
      in if CHR ''.'' \<in> set elem then CHR ''.'' # rev (takeWhile (\<lambda>c. c \<noteq> CHR ''.'') elem)
         else [])"

section \<open>The crawler's URL helpers\<close>

subsection \<open>Canonicalization\<close>

text \<open>\<open>canonicalizeURL_u2\<close> is the edited copy \<^verbatim>\<open>u2\<close> that \<^verbatim>\<open>canonicalizeURL\<close> prints.\<close>

definition canonicalizeURL_u2 :: "URL \<Rightarrow> URL" where
  "canonicalizeURL_u2 u =
     (let u2 = u\<lparr>Fragment := []\<rparr>;
          u2 = (if (Scheme u2 = ''http'' \<and> Port u2 = ''80'')
                   \<or> (Scheme u2 = ''https'' \<and> Port u2 = ''443'')
                then u2\<lparr>Host := Hostname u2\<rparr> else u2);
          u2 = (if Path u2 = [] then u2\<lparr>Path := ''/''\<rparr> else u2)
      in u2)"

definition canonicalizeURL :: "URL \<Rightarrow> string" where
  "canonicalizeURL u = String (canonicalizeURL_u2 u)"

subsection \<open>Small helpers\<close>

definition GetExtType :: "string \<Rightarrow> string" where
  "GetExtType rawUrl = (case Parse rawUrl of None \<Rightarrow> [] | Some u \<Rightarrow> Ext (Path u))"

definition isAbsoluteURL :: "string \<Rightarrow> bool" where
  "isAbsoluteURL s = (case Parse s of None \<Rightarrow> False | Some u \<Rightarrow> Scheme u \<noteq> [] \<and> Host u \<noteq> [])"

fun InScope :: "URL \<Rightarrow> rexp list \<Rightarrow> bool" where
  "InScope u [] = False"
| "InScope u (r # regexps) = (if MatchString r (String u) then True else InScope u regexps)"

definition inScopeStr :: "string \<Rightarrow> rexp list \<Rightarrow> bool" where
  "inScopeStr raw filters = (case Parse raw of None \<Rightarrow> False | Some u \<Rightarrow> InScope u filters)"

text \<open>
  \<^verbatim>\<open>decodeReplacer\<close> rewrites the six bytes backslash, \<^verbatim>\<open>u002f\<close> to a slash and the
  six bytes backslash, \<^verbatim>\<open>u0026\<close> to an ampersand, from the left.
\<close>

function decodeReplacer :: "string \<Rightarrow> string" where
  "decodeReplacer [] = []"
| "decodeReplacer (c # cs) =
     (if HasPrefix (c # cs) (CHR 0x5C # ''u002f'') then CHR ''/'' # decodeReplacer (drop 6 (c # cs))
      else if HasPrefix (c # cs) (CHR 0x5C # ''u0026'') then CHR ''&'' # decodeReplacer (drop 6 (c # cs))
      else c # decodeReplacer cs)"
  by pat_completeness auto
termination
  by (relation "measure length") auto

definition DecodeChars :: "string \<Rightarrow> string" where
  "DecodeChars s = decodeReplacer (case QueryUnescape s of Some source \<Rightarrow> source | None \<Rightarrow> s)"

text \<open>
  \<^verbatim>\<open>FilterNewLines\<close>: every run of tab, carriage return and line feed of the trimmed
  string becomes one space (\<^verbatim>\<open>newlineRE\<close> is \<^verbatim>\<open>[\t\r\n]+\<close>). \<open>prev\<close> says that the byte
  before belongs to such a run.
\<close>

fun newlineRE_replace :: "bool \<Rightarrow> string \<Rightarrow> string" where
  "newlineRE_replace prev [] = []"
| "newlineRE_replace prev (c # cs) =
     (if c = CHR 0x09 \<or> c = CHR 0x0D \<or> c = CHR 0x0A
      then (if prev then newlineRE_replace True cs else CHR '' '' # newlineRE_replace True cs)
      else c # newlineRE_replace False cs)"

definition FilterNewLines :: "string \<Rightarrow> string" where
  "FilterNewLines s = newlineRE_replace False (TrimSpace s)"

section \<open>The crawler\<close>

subsection \<open>Emit filter and deduper\<close>

record EmitFilter =
  allowAll :: bool
  allow :: "string set"
  deny :: "string set"

text \<open>\<^verbatim>\<open>strings.Split(s, ",")\<close>.\<close>

fun Split :: "string \<Rightarrow> char \<Rightarrow> string list" where
  "Split [] sep = [[]]"
| "Split (c # cs) sep =
     (if c = sep then [] # Split cs sep
      else (case Split cs sep of x # xs \<Rightarrow> (c # x) # xs | [] \<Rightarrow> [[c]]))"

text \<open>
  In this section \<open>lw\<close> is the parameter of \<open>ToLower\<close>, what \<^verbatim>\<open>strings.ToLower\<close> does
  beyond ASCII.
\<close>

definition csv_kinds :: "(string \<Rightarrow> string) \<Rightarrow> string \<Rightarrow> string set" where
  "csv_kinds lw csv =
     set (filter (\<lambda>k. k \<noteq> []) (map (\<lambda>k. TrimSpace (ToLower lw k)) (Split csv CHR '','')))"

definition NewEmitFilter :: "(string \<Rightarrow> string) \<Rightarrow> string \<Rightarrow> string \<Rightarrow> EmitFilter" where
  "NewEmitFilter lw includeCSV excludeCSV =
     \<lparr>allowAll = (TrimSpace includeCSV = []),
      allow = (if TrimSpace includeCSV = [] then {} else csv_kinds lw includeCSV),
      deny = csv_kinds lw excludeCSV\<rparr>"

definition OK :: "(string \<Rightarrow> string) \<Rightarrow> EmitFilter \<Rightarrow> string \<Rightarrow> bool" where
  "OK lw f kind =
     (if ToLower lw kind \<in> deny f then False
      else if allowAll f then True
      else ToLower lw kind \<in> allow f)"

text \<open>
  \<^verbatim>\<open>StringFilter.Duplicate\<close>: the set holds lowercased keys; the result says whether the key
  was there already, and the key is in the set afterwards.
\<close>

definition Duplicate :: "(string \<Rightarrow> string) \<Rightarrow> string set \<Rightarrow> string \<Rightarrow> bool \<times> string set" where
  "Duplicate lw sf s = (let key = ToLower lw s in (key \<in> sf, insert key sf))"

subsection \<open>Crawler, output and state\<close>

record SpiderOutput =
  Input :: string
  Source :: string
  OutputType :: string
  Output :: string
  StatusCode :: int
  Length :: int

text \<open>
  The fields of \<^verbatim>\<open>Crawler\<close> that do not change during a crawl. \<open>URLFilters\<close> is
  \<^verbatim>\<open>crawler.C.URLFilters\<close>, \<open>Output_file\<close> says that \<^verbatim>\<open>crawler.Output\<close> is not nil. The
  library functions the callbacks call are parameters, kept as fields: \<open>MarshalToString\<close>
  is jsoniter's (\<open>None\<close> is its error), \<open>ResolveReference\<close> is
  \<^verbatim>\<open>(*url.URL).ResolveReference\<close>, \<open>unicodeLower\<close> is what \<^verbatim>\<open>strings.ToLower\<close> does to a
  text that holds a byte from 0x80 on, and \<open>MustCompile\<close> is \<^verbatim>\<open>regexp.MustCompile\<close> on
  the pattern texts that are not written out below (\<open>None\<close> is its panic).
\<close>

record Crawler =
  site :: URL
  domain :: string
  Input_crawler :: string
  Quiet :: bool
  JsonOutput :: bool
  length_flag :: bool
  raw :: bool
  filterLengthSlice :: "int list"
  emit :: EmitFilter
  URLFilters :: "rexp list"
  Output_file :: bool
  MarshalToString :: "SpiderOutput \<Rightarrow> string option"
  ResolveReference :: "URL \<Rightarrow> URL \<Rightarrow> URL"
  unicodeLower :: "string \<Rightarrow> string"
  MustCompile :: "string \<Rightarrow> rexp option"

text \<open>
  What a crawl changes: the dedupers, the lines printed (each with the kind
  \<^verbatim>\<open>emitLine\<close> was called with), the lines written to the output file, and the URLs
  handed to \<^verbatim>\<open>Visit\<close> of the primary collector (\<open>visits\<close>) and of the linkfinder
  collector (\<open>visits_lf\<close>).
\<close>

record World =
  subSet :: "string set"
  awsSet :: "string set"
  jsSet :: "string set"
  urlSet :: "string set"
  formSet :: "string set"
  uploadFormSet :: "string set"
  seenRender :: "string set"
  emitted :: "(string \<times> string) list"
  file_lines :: "string list"
  visits :: "string list"
  visits_lf :: "string list"

definition emptyWorld :: World where
  "emptyWorld = \<lparr>subSet = {}, awsSet = {}, jsSet = {}, urlSet = {}, formSet = {},
     uploadFormSet = {}, seenRender = {}, emitted = [], file_lines = [], visits = [],
     visits_lf = []\<rparr>"

text \<open>\<^verbatim>\<open>%d\<close> of \<^verbatim>\<open>fmt.Sprintf\<close>.\<close>

function digits_of :: "nat \<Rightarrow> string" where
  "digits_of n = (if n < 10 then [''0123456789'' ! n] else digits_of (n div 10) @ [''0123456789'' ! (n mod 10)])"
  by pat_completeness auto
termination
  by (relation "measure id") auto

declare digits_of.simps [simp del]

definition itoa :: "int \<Rightarrow> string" where
  "itoa i = (if i < 0 then CHR ''-'' # digits_of (nat (- i)) else digits_of (nat i))"

definition WriteToFile :: "Crawler \<Rightarrow> string \<Rightarrow> World \<Rightarrow> World" where
  "WriteToFile c msg w = (if Output_file c then w\<lparr>file_lines := file_lines w @ [msg]\<rparr> else w)"

definition emitLine :: "Crawler \<Rightarrow> string \<Rightarrow> string \<Rightarrow> World \<Rightarrow> World" where
  "emitLine c kind line w =
     (if \<not> OK (unicodeLower c) (emit c) kind then w
      else WriteToFile c line (w\<lparr>emitted := emitted w @ [(kind, line)]\<rparr>))"

text \<open>
  The line the callbacks print for a record: the JSON object when JSON output is on and
  marshalling succeeds, the bare output in quiet mode, the formatted line otherwise.
\<close>

definition render_line :: "Crawler \<Rightarrow> SpiderOutput \<Rightarrow> string \<Rightarrow> string" where
  "render_line c sout outputFormat =
     (if JsonOutput c then
        (case MarshalToString c sout of Some data \<Rightarrow> data | None \<Rightarrow> outputFormat)
      else if Quiet c then Output sout
      else outputFormat)"

definition emitURL :: "Crawler \<Rightarrow> int \<Rightarrow> int \<Rightarrow> string \<Rightarrow> World \<Rightarrow> World" where
  "emitURL c status len u w =
     (let out = (if length_flag c
                 then ''[url] - [code-'' @ itoa status @ ''] - [len_'' @ itoa len @ ''] - '' @ u
                 else ''[url] - [code-'' @ itoa status @ ''] - '' @ u);
          sout = \<lparr>Input = Input_crawler c, Source = ''body'', OutputType = ''url'', Output = u,
                  StatusCode = status, Length = len\<rparr>
      in emitLine c ''url'' (render_line c sout out) w)"

text \<open>\<^verbatim>\<open>feedLinkfinder\<close>: the asset is always printed, and visited only when in scope.\<close>

definition feedLinkfinder :: "Crawler \<Rightarrow> string \<Rightarrow> string \<Rightarrow> string \<Rightarrow> World \<Rightarrow> World" where
  "feedLinkfinder c jsFileUrl0 OutputType0 source w =
     (let (dup, js) = Duplicate (unicodeLower c) (jsSet w) jsFileUrl0;
          w = w\<lparr>jsSet := js\<rparr>
      in if dup then w
         else
           (case Parse jsFileUrl0 of
              None \<Rightarrow> w
            | Some abs_u \<Rightarrow>
                (let jsFileUrl = canonicalizeURL abs_u;
                     inScope = InScope abs_u (URLFilters c);
                     sout = \<lparr>Input = Input_crawler c, Source = source, OutputType = OutputType0,
                             Output = jsFileUrl, StatusCode = 0, Length = 0\<rparr>;
                     outputFormat = ''['' @ OutputType0 @ ''] - '' @ jsFileUrl;
                     w = emitLine c ''javascript'' (render_line c sout outputFormat) w
                 in if \<not> inScope then w
                    else
                      (let w = (if Contains jsFileUrl ''.min.js''
                                then w\<lparr>visits_lf := visits_lf w
                                        @ [ReplaceAll jsFileUrl ''.min.js'' ''.js'']\<rparr>
                                else w)
                       in w\<lparr>visits_lf := visits_lf w @ [jsFileUrl]\<rparr>))))"

subsection \<open>Patterns and subdomain cleaning\<close>

definition disallowedExts :: "string list" where
  "disallowedExts = [''png'', ''apng'', ''bmp'', ''gif'', ''ico'', ''cur'', ''jpg'', ''jpeg'',
     ''jfif'', ''pjp'', ''pjpeg'', ''svg'', ''tif'', ''tiff'', ''webp'', ''xbm'', ''3gp'', ''aac'',
     ''flac'', ''mpg'', ''mpeg'', ''mp3'', ''mp4'', ''m4a'', ''m4v'', ''m4p'', ''oga'', ''ogg'',
     ''ogv'', ''mov'', ''wav'', ''webm'', ''eot'', ''woff'', ''woff2'', ''ttf'', ''otf'', ''css'']"

definition disallowedExtRE :: rexp where
  "disallowedExtRE =
     Seq (lit ''.'') (Seq (alts (map lit_ci disallowedExts)) (alts [lit ''?'', lit ''#'', Eol]))"

definition nameStripRE :: rexp where
  "nameStripRE =
     Seq Bol (Plus (alts (map lit_ci [''20'', ''25'', ''2b'', ''2f'', ''3d'', ''3a'', ''40''])))"

lemma mt_Seq_set:
  "set (mt (Seq r1 r2) b s) = (\<Union>(b1, s1) \<in> set (mt r1 b s). set (mt r2 b1 s1))"
  by auto

lemma mt_Cls_set:
  "set (mt (Cls p) b s) = (case s of [] \<Rightarrow> {} | c # cs \<Rightarrow> if p c then {(False, cs)} else {})"
  by (cases s) auto

definition consuming :: "rexp \<Rightarrow> bool" where
  "consuming r = (\<forall>b s b' s'. (b', s') \<in> set (mt r b s) \<longrightarrow> length s' < length s)"

lemma consuming_Cls: "consuming (Cls p)"
  by (auto simp: consuming_def mt_Cls_set split: list.splits if_splits)

lemma consuming_Seq1: "consuming r1 \<Longrightarrow> consuming (Seq r1 r2)"
  unfolding consuming_def mt_Seq_set by (fastforce dest: mt_length)

lemma consuming_Seq2: "consuming r2 \<Longrightarrow> consuming (Seq r1 r2)"
  unfolding consuming_def mt_Seq_set by (fastforce dest: mt_length)

lemma consuming_Alt: "consuming r1 \<Longrightarrow> consuming r2 \<Longrightarrow> consuming (Alt r1 r2)"
  unfolding consuming_def by auto

lemma consuming_lit: "w \<noteq> [] \<Longrightarrow> consuming (lit w)"
  by (cases w) (auto simp: lit.simps intro: consuming_Seq1 consuming_Cls)

lemma consuming_chr_ci: "consuming (chr_ci c)"
  unfolding chr_ci_def
  by (auto intro!: consuming_Alt consuming_Cls consuming_lit simp: kelvin_sign_def long_s_def)

lemma consuming_lit_ci: "w \<noteq> [] \<Longrightarrow> consuming (lit_ci w)"
  by (cases w) (auto simp: lit_ci.simps intro: consuming_Seq1 consuming_chr_ci)

lemma consuming_alts: "rs \<noteq> [] \<Longrightarrow> \<forall>r \<in> set rs. consuming r \<Longrightarrow> consuming (alts rs)"
  by (induction rs rule: alts.induct) (auto intro: consuming_Alt)

lemma consuming_nameStripRE: "consuming nameStripRE"
  unfolding nameStripRE_def Plus_def
  apply (rule consuming_Seq2)
  apply (rule consuming_Seq1)
  apply (rule consuming_alts)
   apply simp
  apply (auto intro!: consuming_lit_ci)
  done

lemma first_match_Some:
  "first_match r s is = Some (a, e) \<Longrightarrow> match_at r s a = Some e \<and> a \<in> set is"
  by (induction "is") (auto split: option.splits)

lemma match_at_consuming:
  assumes "consuming r" and "match_at r s a = Some e" and "a \<le> length s"
  shows "a < e"
proof -
  from assms(2) obtain b' s' rest where m: "mt r (a = 0) (drop a s) = (b', s') # rest"
    and e: "e = length s - length s'"
    by (auto simp: match_at_def split: list.splits)
  from m have "(b', s') \<in> set (mt r (a = 0) (drop a s))" by simp
  with assms(1) have "length s' < length (drop a s)" unfolding consuming_def by blast
  with e assms(3) show ?thesis by simp
qed

lemma FindStringIndex_consuming:
  assumes "consuming r" and "FindStringIndex r s = Some (i0, i1)"
  shows "0 < i1 \<and> i1 \<le> length s"
proof -
  from assms(2) have ex: "doExecute r s 0 = Some (i0, i1)" by (simp add: FindStringIndex_def)
  from doExecute_bounds[OF ex] have le: "i0 \<le> i1" "i1 \<le> length s" by simp_all
  from ex have "match_at r s i0 = Some i1" unfolding doExecute_def by (simp add: first_match_Some)
  from match_at_consuming[OF assms(1) this] le have "i0 < i1" by simp
  with le show ?thesis by simp
qed

function cleanName_strip :: "string \<Rightarrow> string" where
  "cleanName_strip name =
     (case FindStringIndex nameStripRE name of
        Some (i0, i1) \<Rightarrow> cleanName_strip (drop i1 name)
      | None \<Rightarrow> name)"
  by pat_completeness auto
termination
proof (relation "measure length")
  show "wf (measure length)" by simp
next
  fix name :: string and x2 x y
  assume "FindStringIndex nameStripRE name = Some x2" and "(x, y) = x2"
  then have "FindStringIndex nameStripRE name = Some (x, y)" by simp
  from FindStringIndex_consuming[OF consuming_nameStripRE this]
  have "0 < y \<and> y \<le> length name" .
  then have "length name - y < length name" by arith
  then show "(drop y name, name) \<in> measure length" by simp
qed

declare cleanName_strip.simps [simp del]

definition cleanName :: "string \<Rightarrow> string" where
  "cleanName name0 =
     (let name = cleanName_strip name0;
          name = Trim name ''-''
      in if length name > 1 \<and> name ! 0 = CHR ''.'' then drop 1 name else name)"

definition CleanSubdomain :: "(string \<Rightarrow> string) \<Rightarrow> string \<Rightarrow> string" where
  "CleanSubdomain lw s = cleanName (TrimPrefix (TrimSpace (ToLower lw s)) ''*.'')"

subsection \<open>Grep: subdomains, S3 buckets, link finder\<close>

text \<open>
  \<^verbatim>\<open>SUBRE\<close>, under its flag \<^verbatim>\<open>(?i)\<close>: one or more labels, each followed by a dot.
\<close>

definition SUBRE_label :: rexp where
  "SUBRE_label =
     Alt (cls_ci isAlnum)
         (seqs [cls_ci (\<lambda>c. c = CHR ''_'' \<or> isAlnum c),
                rep_upto 61 (cls_ci (\<lambda>c. c = CHR ''_'' \<or> isAlnum c \<or> c = CHR ''-'')),
                cls_ci isAlnum])"

definition SUBRE :: rexp where
  "SUBRE = Plus (Seq SUBRE_label (Cls (\<lambda>c. c = CHR ''.'')))"

definition SUBRE_text :: string where
  "SUBRE_text =
     ''(?i)(([a-zA-Z0-9]{1}|[_a-zA-Z0-9]{1}[_a-zA-Z0-9-]{0,61}[a-zA-Z0-9]{1})[.]{1})+''"

text \<open>
  \<^verbatim>\<open>subdomainRegex\<close> writes every dot of the domain as the class \<^verbatim>\<open>[.]\<close>, splices the
  other bytes into the pattern text as they are, and compiles \<^verbatim>\<open>SUBRE\<close> followed by that
  text. For a domain of ASCII letters, digits, \<^verbatim>\<open>-\<close>, \<^verbatim>\<open>_\<close> and dots (\<open>plain_domain\<close>)
  the spliced text is a literal, and the pattern is written out. Any other byte may be
  an operator of the pattern syntax or make the text malformed: for such a domain the
  pattern is what \<^verbatim>\<open>regexp.MustCompile\<close> makes of the text, the parameter \<open>mc\<close>, and
  \<open>None\<close> is its panic.
\<close>

definition plain_domain :: "string \<Rightarrow> bool" where
  "plain_domain d = list_all (\<lambda>c. isAlnum c \<or> c = CHR ''-'' \<or> c = CHR ''_'' \<or> c = CHR ''.'') d"

definition subdomainRegex :: "(string \<Rightarrow> rexp option) \<Rightarrow> string \<Rightarrow> rexp option" where
  "subdomainRegex mc domain0 =
     (let d = ReplaceAll domain0 ''.'' ''[.]'' in
      if plain_domain domain0 then Some (Seq SUBRE (lit_ci domain0))
      else mc (SUBRE_text @ d))"

definition GetSubdomains ::
  "(string \<Rightarrow> string) \<Rightarrow> (string \<Rightarrow> rexp option) \<Rightarrow> string \<Rightarrow> string \<Rightarrow> string list option" where
  "GetSubdomains lw mc source domain0 =
     (case subdomainRegex mc domain0 of
        None \<Rightarrow> None
      | Some re \<Rightarrow> Some (map (CleanSubdomain lw) (FindAllString re source)))"

text \<open>\<^verbatim>\<open>AWSS3\<close>, under its flag \<^verbatim>\<open>(?i)\<close>.\<close>

definition AWSS3_host :: rexp where
  "AWSS3_host = Plus (cls_ci (\<lambda>c. isAlnum c \<or> c = CHR ''.'' \<or> c = CHR ''-''))"

definition AWSS3_key :: rexp where
  "AWSS3_key = Plus (cls_ci (\<lambda>c. isAlnum c \<or> c = CHR ''.'' \<or> c = CHR ''_'' \<or> c = CHR ''-''))"

definition AWSS3 :: rexp where
  "AWSS3 = alts
     [Seq AWSS3_host (lit_ci ''.s3.amazonaws.com''),
      seqs [AWSS3_host, lit_ci ''.s3-'', cls_ci (\<lambda>c. isAlnum c \<or> c = CHR ''-''),
            lit_ci ''.amazonaws.com''],
      seqs [AWSS3_host, lit_ci ''.s3-website'', Cls (\<lambda>c. c = CHR ''.'' \<or> c = CHR ''-''),
            alts (map lit_ci [''eu'', ''ap'', ''us'', ''ca'', ''sa'', ''cn''])],
      Seq (lit_ci ''//s3.amazonaws.com/'') AWSS3_key,
      seqs [lit_ci ''//s3-'', Plus (cls_ci (\<lambda>c. isAlnum c \<or> c = CHR ''-'')),
            lit_ci ''.amazonaws.com/'', AWSS3_key]]"

definition GetAWSS3 :: "string \<Rightarrow> string list" where
  "GetAWSS3 source = map DecodeChars (FindAllString AWSS3 source)"

text \<open>\<^verbatim>\<open>linkFinderRegex\<close>: a quote, one of five shapes of token (group 1), a quote.\<close>

definition lf_quote :: rexp where
  "lf_quote = Alt (lit ''\"'') (lit [CHR 0x27])"

definition lf_word :: "char \<Rightarrow> bool" where
  "lf_word c = (isAlnum c \<or> c = CHR ''_'' \<or> c = CHR ''-'' \<or> c = CHR ''/'')"

definition lf_tail :: rexp where
  "lf_tail =
     Alt (Seq (Cls (\<lambda>c. c = CHR ''?'' \<or> c = CHR ''|'' \<or> c = CHR ''#''))
              (Star (Cls (\<lambda>c. c \<noteq> CHR ''\"'' \<and> c \<noteq> CHR ''|'' \<and> c \<noteq> CHR 0x27))))
         Eps"

definition linkFinderRegex :: rexp where
  "linkFinderRegex = seqs
     [lf_quote,
      alts
        [seqs [Alt (Seq (rep_range 1 10 (Cls isAlpha)) (lit ''://'')) (lit ''//''),
               Plus (Cls (\<lambda>c. c \<noteq> CHR ''\"'' \<and> c \<noteq> CHR 0x27 \<and> c \<noteq> CHR ''/'')),
               lit ''.'',
               rep_min 2 (Cls isAlpha),
               Star (Cls (\<lambda>c. c \<noteq> CHR ''\"'' \<and> c \<noteq> CHR 0x27))],
         seqs [alts [lit ''/'', lit ''../'', lit ''./''],
               Cls (\<lambda>c. c \<notin> set (''\"'' @ [CHR 0x27] @ ''><,;| *()%$^/'' @ [CHR 0x5C] @ ''[]'')),
               Plus (Cls (\<lambda>c. c \<notin> set (''\"'' @ [CHR 0x27] @ ''><,;|()'')))],
         seqs [Plus (Cls lf_word), lit ''/'', Plus (Cls lf_word), lit ''.'',
               Alt (rep_range 1 4 (Cls isAlpha)) (lit ''action''),
               lf_tail],
         seqs [Plus (Cls lf_word), lit ''/'', rep_min 3 (Cls lf_word), lf_tail],
         seqs [Plus (Cls (\<lambda>c. isAlnum c \<or> c = CHR ''_'' \<or> c = CHR ''-'')), lit ''.'',
               alts (map lit [''php'', ''asp'', ''aspx'', ''jsp'', ''json'', ''action'', ''html'',
                              ''js'', ''txt'', ''xml'']),
               lf_tail]],
      lf_quote]"

definition mimeRE :: rexp where
  "mimeRE = seqs
     [Bol, Cls isAlpha,
      Star (Cls (\<lambda>c. isAlnum c \<or> c = CHR ''.'' \<or> c = CHR ''+'' \<or> c = CHR ''-'')),
      lit ''/'',
      Plus (Cls (\<lambda>c. isAlnum c \<or> c = CHR ''.'' \<or> c = CHR ''+'' \<or> c = CHR ''-'')),
      Eol]"

definition dateRE :: rexp where
  "dateRE = seqs
     [Bol, rep_range 1 2 (Cls isDigit), lit ''/'', rep_range 1 2 (Cls isDigit), lit ''/'',
      rep_range 2 4 (Cls isDigit), Eol]"

definition isNoiseToken :: "string \<Rightarrow> bool" where
  "isNoiseToken s0 =
     (let s = TrimSpace s0 in
      if s = [] then True
      else if MatchString mimeRE s then True
      else if MatchString dateRE s then True
      else if Contains s ''{{'' \<or> Contains s ''}}'' then True
      else if Contains s ''/:'' then True
      else False)"

text \<open>
  \<^verbatim>\<open>LinkFinder\<close>: group 1 of a match is the match without its two quotes. The function
  never returns an error.
\<close>

definition LinkFinder :: "string \<Rightarrow> string list" where
  "LinkFinder source0 =
     (let source = (if int (length source0) > 1000000
                    then ReplaceAll (ReplaceAll source0 '';'' ('';'' @ [CHR 0x0D, CHR 0x0A]))
                           '','' ('','' @ [CHR 0x0D, CHR 0x0A])
                    else source0);
          source = DecodeChars source;
          ms = FindAllString linkFinderRegex source
      in Unique (filter (\<lambda>g. g \<noteq> []) (map (\<lambda>m. FilterNewLines (butlast (tl m))) ms)))"

definition FixUrl :: "Crawler \<Rightarrow> URL \<Rightarrow> string \<Rightarrow> string" where
  "FixUrl c mainSite nextLoc =
     (case Parse nextLoc of
        None \<Rightarrow> []
      | Some nextLocUrl \<Rightarrow> String (ResolveReference c mainSite nextLocUrl))"

subsection \<open>Grep helpers of the callbacks\<close>

definition findSubdomains_sub :: "Crawler \<Rightarrow> string \<Rightarrow> World \<Rightarrow> World" where
  "findSubdomains_sub c sub w =
     (let (dup, ss) = Duplicate (unicodeLower c) (subSet w) sub;
          w = w\<lparr>subSet := ss\<rparr>
      in if dup then w
         else if JsonOutput c then
           (case MarshalToString c \<lparr>Input = Input_crawler c, Source = ''body'',
                   OutputType = ''subdomain'', Output = sub, StatusCode = 0, Length = 0\<rparr> of
              Some data \<Rightarrow> emitLine c ''subdomains'' data w
            | None \<Rightarrow> w)
         else if \<not> Quiet c then
           emitLine c ''subdomains'' (''[subdomains] - https://'' @ sub)
             (emitLine c ''subdomains'' (''[subdomains] - http://'' @ sub) w)
         else emitLine c ''subdomains'' sub w)"

text \<open>
  A callback returns, or the program panics in it; either way with the state reached
  so far. \<^verbatim>\<open>findSubdomains\<close> panics when the subdomain pattern does not compile, before
  it prints anything.
\<close>

datatype outcome = Returned World | Panicked World

definition findSubdomains :: "Crawler \<Rightarrow> string \<Rightarrow> World \<Rightarrow> outcome" where
  "findSubdomains c resp w =
     (case GetSubdomains (unicodeLower c) (MustCompile c) resp (domain c) of
        None \<Rightarrow> Panicked w
      | Some subs \<Rightarrow> Returned (fold (findSubdomains_sub c) subs w))"

definition findAWSS3_e :: "Crawler \<Rightarrow> string \<Rightarrow> World \<Rightarrow> World" where
  "findAWSS3_e c e w =
     (let (dup, ss) = Duplicate (unicodeLower c) (awsSet w) e;
          w = w\<lparr>awsSet := ss\<rparr>
      in if dup then w
         else emitLine c ''aws''
                (render_line c \<lparr>Input = Input_crawler c, Source = ''body'', OutputType = ''aws'',
                      Output = e, StatusCode = 0, Length = 0\<rparr> (''[aws-s3] - '' @ e)) w)"

definition findAWSS3 :: "Crawler \<Rightarrow> string \<Rightarrow> World \<Rightarrow> World" where
  "findAWSS3 c resp w = fold (findAWSS3_e c) (GetAWSS3 resp) w"

text \<open>
  A URL found by the link finder that is new to \<open>urlSet\<close> is printed with kind
  \<^verbatim>\<open>linkfinder\<close> (unless JSON marshalling fails, which leaves the line empty) and
  visited.
\<close>

definition linkfinder_emit_visit :: "Crawler \<Rightarrow> string \<Rightarrow> string \<Rightarrow> World \<Rightarrow> World" where
  "linkfinder_emit_visit c source u w =
     (let (dup, us) = Duplicate (unicodeLower c) (urlSet w) u;
          w = w\<lparr>urlSet := us\<rparr>
      in if dup then w
         else
           (let out = (if JsonOutput c then
                         (case MarshalToString c \<lparr>Input = Input_crawler c, Source = source,
                                 OutputType = ''linkfinder'', Output = u, StatusCode = 0,
                                 Length = 0\<rparr> of
                            Some data \<Rightarrow> data | None \<Rightarrow> [])
                       else if Quiet c then u
                       else ''[linkfinder] - '' @ u);
                w = (if out \<noteq> [] then emitLine c ''linkfinder'' out w else w)
            in w\<lparr>visits := visits w @ [u]\<rparr>))"

text \<open>
  The body of the loop over the link finder's tokens, which the two response callbacks
  share: \<open>base\<close> is the URL a relative token is resolved against, \<open>source\<close> the response's
  URL as a string, \<open>feed\<close> the source tag handed to \<^verbatim>\<open>feedLinkfinder\<close>.
\<close>

definition linkfinder_token :: "Crawler \<Rightarrow> URL \<Rightarrow> string \<Rightarrow> string \<Rightarrow> string \<Rightarrow> World \<Rightarrow> World" where
  "linkfinder_token c base source feed relPath w =
     (if isNoiseToken relPath then w
      else if isAbsoluteURL relPath then
        (case Parse relPath of
           None \<Rightarrow> w
         | Some uAbs \<Rightarrow>
             if \<not> InScope uAbs (URLFilters c) then w
             else linkfinder_emit_visit c source (canonicalizeURL uAbs) w)
      else
        (let rebuildURL = FixUrl c base relPath in
         if rebuildURL = [] then w
         else
           (case Parse rebuildURL of
              None \<Rightarrow> w
            | Some uReb \<Rightarrow>
                if \<not> InScope uReb (URLFilters c) then w
                else
                  (let rebuildURL = canonicalizeURL uReb;
                       ext = GetExtType rebuildURL
                   in if ext = ''.js'' \<or> ext = ''.xml'' \<or> ext = ''.json'' \<or> ext = ''.map''
                      then feedLinkfinder c rebuildURL ''linkfinder'' feed w
                      else linkfinder_emit_visit c source rebuildURL w))))"

definition emit_raw :: "Crawler \<Rightarrow> string \<Rightarrow> World \<Rightarrow> World" where
  "emit_raw c respStr w =
     (if raw c then
        (let rawLine = ''[Raw] - '' @ [CHR 0x0A] @ respStr @ [CHR 0x0A] in
         if \<not> Quiet c then emitLine c ''raw'' rawLine w
         else WriteToFile c rawLine w)
      else w)"

subsection \<open>Callbacks of the primary collector\<close>

record HTMLElement =
  Name :: string
  AbsoluteURL_href :: string
  AbsoluteURL_src :: string
  Request_URL :: URL

text \<open>
  The callback of \<^verbatim>\<open>OnHTML\<close>. \<open>AbsoluteURL_href e\<close> and \<open>AbsoluteURL_src e\<close> are colly's
  \<^verbatim>\<open>e.Request.AbsoluteURL(e.Attr("href"))\<close> and \<^verbatim>\<open>e.Request.AbsoluteURL(e.Attr("src"))\<close>.
\<close>

definition OnHTML :: "Crawler \<Rightarrow> HTMLElement \<Rightarrow> World \<Rightarrow> World" where
  "OnHTML c e w =
     (if Name e = ''a'' \<or> Name e = ''link'' then
        (let urlString = FixUrl c (site c) (AbsoluteURL_href e) in
         if urlString = [] then w
         else if MatchString disallowedExtRE urlString then w
         else
           (case Parse urlString of
              None \<Rightarrow> w
            | Some abs_u \<Rightarrow>
                if \<not> InScope abs_u (URLFilters c) then w
                else
                  (let urlString = canonicalizeURL abs_u;
                       (dup, us) = Duplicate (unicodeLower c) (urlSet w) urlString;
                       w = w\<lparr>urlSet := us\<rparr>
                   in if dup then w
                      else
                        (let w = emitLine c ''href''
                                   (render_line c \<lparr>Input = Input_crawler c, Source = ''body'',
                                       OutputType = ''href'', Output = urlString, StatusCode = 0,
                                       Length = 0\<rparr> (''[href] - '' @ urlString)) w
                         in w\<lparr>visits := visits w @ [urlString]\<rparr>))))
      else if Name e = ''form'' then
        (let formUrl = String (Request_URL e);
             (dup, fs) = Duplicate (unicodeLower c) (formSet w) formUrl;
             w = w\<lparr>formSet := fs\<rparr>
         in if dup then w
            else emitLine c ''form''
                   (render_line c \<lparr>Input = Input_crawler c, Source = ''body'', OutputType = ''form'',
                       Output = formUrl, StatusCode = 0, Length = 0\<rparr> (''[form] - '' @ formUrl)) w)
      else if Name e = ''input'' then
        (let uploadUrl = String (Request_URL e);
             (dup, fs) = Duplicate (unicodeLower c) (uploadFormSet w) uploadUrl;
             w = w\<lparr>uploadFormSet := fs\<rparr>
         in if dup then w
            else emitLine c ''upload-form''
                   (render_line c \<lparr>Input = Input_crawler c, Source = ''body'',
                       OutputType = ''upload-form'', Output = uploadUrl, StatusCode = 0,
                       Length = 0\<rparr> (''[upload-form] - '' @ uploadUrl)) w)
      else if Name e = ''script'' then
        (let jsFileUrl = FixUrl c (site c) (AbsoluteURL_src e) in
         if jsFileUrl = [] then w
         else
           (let fileExt = GetExtType jsFileUrl in
            if fileExt = ''.js'' \<or> fileExt = ''.xml'' \<or> fileExt = ''.json''
            then feedLinkfinder c jsFileUrl ''javascript'' ''body'' w
            else w))
      else w)"

text \<open>
  What the response callbacks read of a \<^verbatim>\<open>colly.Response\<close>: \<open>Resp_StatusCode\<close> is
  \<^verbatim>\<open>response.StatusCode\<close>, \<open>Resp_URL\<close> is \<^verbatim>\<open>response.Request.URL\<close> and \<open>ContentType\<close> is
  \<^verbatim>\<open>response.Headers.Get("Content-Type")\<close>.
\<close>

record Response =
  Resp_StatusCode :: int
  Body :: string
  Resp_URL :: URL
  ContentType :: string

definition maxGrepBody :: int where
  "maxGrepBody = 4 * 1024 * 1024"

text \<open>The callback of \<^verbatim>\<open>crawler.C.OnResponse\<close> in \<^verbatim>\<open>Start\<close>.\<close>

definition OnResponse :: "Crawler \<Rightarrow> Response \<Rightarrow> World \<Rightarrow> outcome" where
  "OnResponse c response w =
     (let body = Body response;
          u = String (Resp_URL response);
          decoded = (int (length body) \<le> maxGrepBody);
          respStr = (if decoded then DecodeChars body else []);
          bodyLen = (if decoded then int (length respStr) else int (length body))
      in if filterLengthSlice c = [] \<or> \<not> contains (filterLengthSlice c) bodyLen then
           (let w = emitURL c (Resp_StatusCode response) bodyLen u w in
            if decoded \<and> InScope (Resp_URL response) (URLFilters c) then
              (case findSubdomains c respStr w of
                 Panicked w \<Rightarrow> Panicked w
               | Returned w \<Rightarrow>
                   (let w = findAWSS3 c respStr w;
                        ct = ToLower (unicodeLower c) (ContentType response);
                        w = (if Contains ct ''text/html'' \<or> Contains ct ''application/xhtml''
                                \<or> ct = []
                             then fold (linkfinder_token c (Resp_URL response) u ''html'')
                                    (LinkFinder respStr) w
                             else w)
                    in Returned (emit_raw c respStr w)))
            else Returned w)
         else Returned w)"

text \<open>The callback of \<^verbatim>\<open>crawler.C.OnError\<close> in \<^verbatim>\<open>Start\<close>.\<close>

definition OnError :: "Crawler \<Rightarrow> Response \<Rightarrow> World \<Rightarrow> World" where
  "OnError c response w =
     (if Resp_StatusCode response = 404 \<or> Resp_StatusCode response = 429
         \<or> Resp_StatusCode response < 100 \<or> Resp_StatusCode response \<ge> 500 then w
      else emitURL c (Resp_StatusCode response) (int (length (Body response)))
             (String (Resp_URL response)) w)"

subsection \<open>The callback of the linkfinder collector\<close>

text \<open>The callback of \<^verbatim>\<open>crawler.LinkFinderCollector.OnResponse\<close> in \<^verbatim>\<open>setupLinkFinder\<close>.\<close>

definition LinkFinder_OnResponse :: "Crawler \<Rightarrow> Response \<Rightarrow> World \<Rightarrow> outcome" where
  "LinkFinder_OnResponse c response w =
     (if Resp_StatusCode response = 404 \<or> Resp_StatusCode response = 429
         \<or> Resp_StatusCode response < 100 then Returned w
      else
        (let body = Body response;
             u = String (Resp_URL response)
         in if int (length body) > maxGrepBody
            then Returned (emitURL c (Resp_StatusCode response) (int (length body)) u w)
            else
              (let respStr = DecodeChars body;
                   bodyLen = int (length respStr)
               in if filterLengthSlice c = [] \<or> \<not> contains (filterLengthSlice c) bodyLen then
                    (let w = emitURL c (Resp_StatusCode response) bodyLen u w in
                     if InScope (Resp_URL response) (URLFilters c) then
                       (case findSubdomains c respStr w of
                          Panicked w \<Rightarrow> Panicked w
                        | Returned w \<Rightarrow>
                            (let w = findAWSS3 c respStr w;
                                 base = (case Parse u of Some currentPathURL \<Rightarrow> currentPathURL
                                         | None \<Rightarrow> site c);
                                 w = fold (linkfinder_token c base u ''javascript'')
                                       (LinkFinder respStr) w
                             in Returned (emit_raw c respStr w)))
                     else Returned w)
                  else Returned w)))"

subsection \<open>Which callback a response reaches\<close>

text \<open>
  The callbacks are called by colly's \<^verbatim>\<open>Collector.fetch\<close>. It hands a fetch that failed
  (\<open>err\<close>: a transport error, with status 0) and a response with a status from 203 on to
  the error callbacks and returns; any other response goes to the response callbacks.
  (The collector's switch \<^verbatim>\<open>ParseHTTPErrorResponse\<close>, which would send every response to
  the response callbacks, is off by default and the crawler never sets it.) The primary
  collector has the two callbacks of \<^verbatim>\<open>Start\<close>. The linkfinder collector is a
  \<^verbatim>\<open>Clone\<close>, which copies no callback, and \<^verbatim>\<open>setupLinkFinder\<close> gives it a response
  callback only: a fetch that colly counts as an error reaches no code of the crawler.
\<close>

definition handleOnError :: "bool \<Rightarrow> Response \<Rightarrow> bool" where
  "handleOnError err response = (err \<or> Resp_StatusCode response \<ge> 203)"

definition C_fetch :: "Crawler \<Rightarrow> bool \<Rightarrow> Response \<Rightarrow> World \<Rightarrow> outcome" where
  "C_fetch c err response w =
     (if handleOnError err response then Returned (OnError c response w)
      else OnResponse c response w)"

definition LinkFinderCollector_fetch :: "Crawler \<Rightarrow> bool \<Rightarrow> Response \<Rightarrow> World \<Rightarrow> outcome" where
  "LinkFinderCollector_fetch c err response w =
     (if handleOnError err response then Returned w
      else LinkFinder_OnResponse c response w)"

subsection \<open>Scope\<close>

text \<open>
  The two patterns \<^verbatim>\<open>NewCrawler\<close> builds around a quoted host:
  \<^verbatim>\<open>^https?://([^.]+\.)*HOST(?::\d+)?(?:/|$)\<close> and \<^verbatim>\<open>^https?://HOST(?::\d+)?(?:/|$)\<close>.
\<close>

definition scope_port_end :: rexp where
  "scope_port_end = Seq (Opt (Seq (lit '':'') (Plus (Cls isDigit)))) (Alt (lit ''/'') Eol)"

definition scope_subs :: "string \<Rightarrow> rexp" where
  "scope_subs host =
     seqs [Bol, lit ''http'', Opt (lit ''s''), lit ''://'',
           Star (Seq (Plus (Cls (\<lambda>c. c \<noteq> CHR ''.''))) (lit ''.'')),
           QuoteMeta host, scope_port_end]"

definition scope_host :: "string \<Rightarrow> rexp" where
  "scope_host host =
     seqs [Bol, lit ''http'', Opt (lit ''s''), lit ''://'', QuoteMeta host, scope_port_end]"

record ScopeOverride =
  Domain :: string
  AllowSubs :: bool

text \<open>
  \<^verbatim>\<open>GetDomain\<close>; \<open>etld1\<close> is \<^verbatim>\<open>publicsuffix.EffectiveTLDPlusOne\<close>, a parameter (\<open>None\<close> is
  its error).
\<close>

definition GetDomain :: "(string \<Rightarrow> string option) \<Rightarrow> URL \<Rightarrow> string" where
  "GetDomain etld1 site0 = (case etld1 (Hostname site0) of None \<Rightarrow> [] | Some d \<Rightarrow> d)"

definition normalizeTarget :: "(string \<Rightarrow> string option) \<Rightarrow> string \<Rightarrow> URL \<times> ScopeOverride option" where
  "normalizeTarget etld1 raw0 =
     (let raw1 = TrimSpace raw0 in
      if raw1 = [] then (emptyURL, None)
      else if Contains raw1 ''://'' then
        (case Parse raw1 of None \<Rightarrow> (emptyURL, None) | Some u \<Rightarrow> (u, None))
      else
        (case Parse (''https://'' @ raw1) of
           None \<Rightarrow> (emptyURL, None)
         | Some u \<Rightarrow>
             (let apex = GetDomain etld1 u;
                  apex = (if apex = [] then Host u else apex)
              in (u, Some \<lparr>Domain = apex, AllowSubs = True\<rparr>))))"

text \<open>
  The scope set-up of \<^verbatim>\<open>NewCrawler\<close>: what \<^verbatim>\<open>c.URLFilters\<close> holds at the end.
  \<open>ef\<close> is the parameter of \<open>EqualFold\<close>,
  \<open>domain0\<close> is \<^verbatim>\<open>GetDomain(site)\<close>, \<open>flagSubs\<close> the flag \<^verbatim>\<open>--subs\<close>, \<open>whiteLists\<close> the
  compiled \<^verbatim>\<open>--whitelist\<close> (\<open>None\<close> when the flag is empty) and \<open>whiteListDomain\<close> the flag
  \<^verbatim>\<open>--whitelist-domain\<close>.
\<close>

definition NewCrawler_URLFilters ::
  "(string \<Rightarrow> string \<Rightarrow> bool) \<Rightarrow> URL \<Rightarrow> string \<Rightarrow> ScopeOverride option \<Rightarrow> bool \<Rightarrow> rexp option
     \<Rightarrow> string \<Rightarrow> rexp list" where
  "NewCrawler_URLFilters ef site0 domain0 scopeOverride flagSubs0 whiteLists whiteListDomain =
     (let filters =
            (case scopeOverride of
               Some so \<Rightarrow> [if AllowSubs so then scope_subs (Domain so) else scope_host (Domain so)]
             | None \<Rightarrow> []);
          flagSubs =
            (case scopeOverride of
               Some so \<Rightarrow> flagSubs0
             | None \<Rightarrow> if EqualFold ef (Hostname site0) domain0 then True else flagSubs0);
          filters = (case whiteLists of Some re \<Rightarrow> [re] | None \<Rightarrow> filters);
          filters = (if whiteListDomain \<noteq> [] then [scope_host whiteListDomain] else filters)
      in case filters of
           [] \<Rightarrow> [if flagSubs then scope_subs domain0 else scope_host (Hostname site0)]
         | _ \<Rightarrow> filters)"

subsection \<open>Render manager\<close>

text \<open>
  The render loop of \<^verbatim>\<open>StartRenderManager\<close> runs in its own goroutine and, while the
  budget lasts, waits for the queue or for the three-second idle tick. A run of the
  loop is modelled by the list of what it and the listener next to it see: a URL taken
  from the queue, an idle tick, or an XHR/Fetch request the browser reports. The page
  navigation itself has no effect on the crawler's state.
\<close>

datatype render_event = Dequeued string | IdleTick | RequestWillBeSent string

definition render_page :: "Crawler \<Rightarrow> string \<Rightarrow> World \<Rightarrow> bool \<times> World" where
  "render_page c u w =
     (if u = [] then (False, w)
      else
        (let (dup, sr) = Duplicate (unicodeLower c) (seenRender w) u;
             w = w\<lparr>seenRender := sr\<rparr>
         in if dup then (False, w)
            else if \<not> inScopeStr u (URLFilters c) then (False, w)
            else (True, emitLine c ''render'' (''[render] - '' @ u) w)))"

definition render_network :: "Crawler \<Rightarrow> string \<Rightarrow> World \<Rightarrow> World" where
  "render_network c reqURL w =
     (if inScopeStr reqURL (URLFilters c) then
        (let (dup, us) = Duplicate (unicodeLower c) (urlSet w) reqURL;
             w = w\<lparr>urlSet := us\<rparr>
         in if dup then w
            else emitLine c ''network'' (''[network] - '' @ reqURL)
                   (w\<lparr>visits := visits w @ [reqURL]\<rparr>))
      else w)"

fun render_loop :: "Crawler \<Rightarrow> int \<Rightarrow> render_event list \<Rightarrow> World \<Rightarrow> World" where
  "render_loop c budget [] w = w"
| "render_loop c budget (ev # evs) w =
     (if budget > 0 then
        (case ev of
           RequestWillBeSent reqURL \<Rightarrow> render_loop c budget evs (render_network c reqURL w)
         | IdleTick \<Rightarrow> render_loop c budget evs w
         | Dequeued u \<Rightarrow>
             (case render_page c u w of
                (True, w') \<Rightarrow> render_loop c (budget - 1) evs w'
              | (False, w') \<Rightarrow> render_loop c budget evs w'))
      else w)"

definition StartRenderManager :: "Crawler \<Rightarrow> int \<Rightarrow> render_event list \<Rightarrow> World \<Rightarrow> World" where
  "StartRenderManager c budget0 evs w =
     render_loop c (if budget0 \<le> 0 then 6 else budget0) evs w"

text \<open>The records of one kind among the printed lines.\<close>

definition emitted_of :: "string \<Rightarrow> World \<Rightarrow> string list" where
  "emitted_of kind w = map snd (filter (\<lambda>(k, line). k = kind) (emitted w))"

subsection \<open>Building a crawler\<close>

text \<open>
  The flags \<^verbatim>\<open>NewCrawler\<close> reads that matter to the callbacks. \<open>filter_length\<close> is the
  list of integers parsed from \<^verbatim>\<open>--filter-length\<close>, \<open>whitelist\<close> the compiled
  \<^verbatim>\<open>--whitelist\<close> pattern (\<open>None\<close> for the empty flag).
\<close>

record Flags =
  flag_quiet :: bool
  flag_json :: bool
  flag_length :: bool
  flag_raw :: bool
  flag_subs :: bool
  flag_filter_length :: "int list"
  flag_types :: string
  flag_exclude_types :: string
  flag_whitelist :: "rexp option"
  flag_whitelist_domain :: string
  flag_output :: string

definition default_flags :: Flags where
  "default_flags = \<lparr>flag_quiet = False, flag_json = False, flag_length = False, flag_raw = False,
     flag_subs = False, flag_filter_length = [], flag_types = [], flag_exclude_types = [],
     flag_whitelist = None, flag_whitelist_domain = [], flag_output = []\<rparr>"

text \<open>
  \<^verbatim>\<open>NewCrawler\<close>: \<open>NewCrawler_struct\<close> is the struct it returns, and \<open>None\<close> its exit on an
  empty domain. The functions of the libraries are gathered in one record of
  parameters.
\<close>

record Library =
  EffectiveTLDPlusOne :: "string \<Rightarrow> string option"
  jsoniter_MarshalToString :: "SpiderOutput \<Rightarrow> string option"
  URL_ResolveReference :: "URL \<Rightarrow> URL \<Rightarrow> URL"
  strings_ToLower_unicode :: "string \<Rightarrow> string"
  strings_EqualFold_unicode :: "string \<Rightarrow> string \<Rightarrow> bool"
  regexp_MustCompile :: "string \<Rightarrow> rexp option"

definition NewCrawler_struct :: "Library \<Rightarrow> Flags \<Rightarrow> URL \<Rightarrow> ScopeOverride option \<Rightarrow> Crawler" where
  "NewCrawler_struct lib flags site0 scopeOverride =
     \<lparr>site = site0, domain = GetDomain (EffectiveTLDPlusOne lib) site0,
      Input_crawler = String site0,
      Quiet = flag_quiet flags, JsonOutput = flag_json flags, length_flag = flag_length flags,
      raw = flag_raw flags, filterLengthSlice = flag_filter_length flags,
      emit = NewEmitFilter (strings_ToLower_unicode lib) (flag_types flags)
               (flag_exclude_types flags),
      URLFilters = NewCrawler_URLFilters (strings_EqualFold_unicode lib) site0
                     (GetDomain (EffectiveTLDPlusOne lib) site0) scopeOverride
                     (flag_subs flags) (flag_whitelist flags) (flag_whitelist_domain flags),
      Output_file = (flag_output flags \<noteq> []),
      MarshalToString = jsoniter_MarshalToString lib,
      ResolveReference = URL_ResolveReference lib,
      unicodeLower = strings_ToLower_unicode lib,
      MustCompile = regexp_MustCompile lib\<rparr>"

definition NewCrawler :: "Library \<Rightarrow> Flags \<Rightarrow> URL \<Rightarrow> ScopeOverride option \<Rightarrow> Crawler option" where
  "NewCrawler lib flags site0 scopeOverride =
     (if GetDomain (EffectiveTLDPlusOne lib) site0 = [] then None
      else Some (NewCrawler_struct lib flags site0 scopeOverride))"

text \<open>
  Stand-ins for the library in worked examples: \<open>etld1_plain\<close> is
  \<^verbatim>\<open>EffectiveTLDPlusOne\<close> on hosts under a one-label public suffix such as \<^verbatim>\<open>com\<close> or
  \<^verbatim>\<open>test\<close> (the last two labels), \<open>marshal_none\<close> a marshaller that is never called when
  JSON output is off, and \<open>resolve_abs\<close> is \<^verbatim>\<open>ResolveReference\<close> on an absolute reference
  with a path free of dot segments (the reference itself). The last three are never
  called in an example whose texts are ASCII and whose domain is plain.
\<close>

definition etld1_plain :: "string \<Rightarrow> string option" where
  "etld1_plain h =
     (let labels = Split h CHR ''.'' in
      if length labels < 2 \<or> [] \<in> set labels then None
      else Some (last (butlast labels) @ ''.'' @ last labels))"

definition marshal_none :: "SpiderOutput \<Rightarrow> string option" where
  "marshal_none sout = None"

definition resolve_abs :: "URL \<Rightarrow> URL \<Rightarrow> URL" where
  "resolve_abs base ref = ref"

definition lower_none :: "string \<Rightarrow> string" where
  "lower_none s = s"

definition fold_none :: "string \<Rightarrow> string \<Rightarrow> bool" where
  "fold_none s t = False"

definition compile_none :: "string \<Rightarrow> rexp option" where
  "compile_none pattern = None"

definition library_plain :: Library where
  "library_plain =
     \<lparr>EffectiveTLDPlusOne = etld1_plain, jsoniter_MarshalToString = marshal_none,
      URL_ResolveReference = resolve_abs, strings_ToLower_unicode = lower_none,
      strings_EqualFold_unicode = fold_none, regexp_MustCompile = compile_none\<rparr>"

text \<open>
  The crawler \<^verbatim>\<open>run\<close> builds for a target, with the stand-ins above: the target is
  normalized and handed to \<^verbatim>\<open>NewCrawler\<close>.
\<close>

definition crawler_of :: "Flags \<Rightarrow> string \<Rightarrow> Crawler" where
  "crawler_of flags target =
     (case normalizeTarget etld1_plain target of
        (siteURL, scope) \<Rightarrow>
          NewCrawler_struct library_plain flags siteURL scope)"

subsection \<open>Names for the statements\<close>

text \<open>The line \<^verbatim>\<open>feedLinkfinder\<close> prints for the asset URL \<open>u\<close>.\<close>

definition javascript_line :: "Crawler \<Rightarrow> string \<Rightarrow> string \<Rightarrow> URL \<Rightarrow> string" where
  "javascript_line c OutputType0 source u =
     render_line c \<lparr>Input = Input_crawler c, Source = source, OutputType = OutputType0,
         Output = canonicalizeURL u, StatusCode = 0, Length = 0\<rparr>
       (''['' @ OutputType0 @ ''] - '' @ canonicalizeURL u)"

text \<open>A URL given by its text, for worked examples: \<^verbatim>\<open>url.Parse\<close> of a text that parses.\<close>

definition must_parse :: "string \<Rightarrow> URL" where
  "must_parse s = (case Parse s of Some u \<Rightarrow> u | None \<Rightarrow> emptyURL)"

text \<open>The state a callback leaves, whether it returned or panicked.\<close>

fun world_of :: "outcome \<Rightarrow> World" where
  "world_of (Returned w) = w"
| "world_of (Panicked w) = w"

text \<open>The statuses whose \<^verbatim>\<open>url\<close> record the error callback holds back.\<close>

definition suppressed :: "int \<Rightarrow> bool" where
  "suppressed status = (status = 404 \<or> status = 429 \<or> status < 100 \<or> status \<ge> 500)"

text \<open>The body length the primary callback compares with the filter and prints.\<close>

definition OnResponse_bodyLen :: "Response \<Rightarrow> int" where
  "OnResponse_bodyLen response =
     (if int (length (Body response)) \<le> maxGrepBody
      then int (length (DecodeChars (Body response)))
      else int (length (Body response)))"


text \<open>
  The cleaning of a subdomain in the specification's words, step by step, each step
  written with the list functions of HOL and none of the helpers above: lowercase, trim
  the white space, remove a leading \<^verbatim>\<open>*.\<close>, strip the leading run of the two-byte
  residues of percent-encoding, trim \<^verbatim>\<open>-\<close> at both ends, and drop a leading dot that
  something follows. \<open>ltrim es s\<close> takes from the front of \<open>s\<close>, again and again, one of the
  texts \<open>es\<close>; \<open>rtrim\<close> does so at the end.
\<close>

function ltrim :: "string list \<Rightarrow> string \<Rightarrow> string" where
  "ltrim es s =
     (case find (\<lambda>e. e \<noteq> [] \<and> prefix e s) es of
        Some e \<Rightarrow> ltrim es (drop (length e) s)
      | None \<Rightarrow> s)"
  by pat_completeness auto
termination
proof (relation "measure (\<lambda>(es, s). length s)")
  show "wf (measure (\<lambda>(es, s). length s))" by simp
next
  fix es :: "string list" and s e :: string
  assume "find (\<lambda>e. e \<noteq> [] \<and> prefix e s) es = Some e"
  then have "e \<noteq> []" and "prefix e s" by (auto simp: find_Some_iff)
  then have "0 < length e \<and> length e \<le> length s" by (auto simp: prefix_def)
  then have "length s - length e < length s" by arith
  then show "((es, drop (length e) s), es, s) \<in> measure (\<lambda>(es, s). length s)" by simp
qed

declare ltrim.simps [simp del]

definition rtrim :: "string list \<Rightarrow> string \<Rightarrow> string" where
  "rtrim es s = rev (ltrim (map rev es) (rev s))"

definition trim_space :: "string \<Rightarrow> string" where
  "trim_space s = rtrim white_space (ltrim white_space s)"

definition strip_star_dot :: "string \<Rightarrow> string" where
  "strip_star_dot s = (if prefix ''*.'' s then drop 2 s else s)"

definition residues :: "string list" where
  "residues = [''20'', ''25'', ''2b'', ''2f'', ''3d'', ''3a'', ''40'']"

fun strip_residues :: "string \<Rightarrow> string" where
  "strip_residues (a # b # cs) =
     (if lower_ascii [a, b] \<in> set residues then strip_residues cs else a # b # cs)"
| "strip_residues cs = cs"

definition drop_leading_dot :: "string \<Rightarrow> string" where
  "drop_leading_dot name = (if length name > 1 \<and> hd name = CHR ''.'' then tl name else name)"

definition trim_dashes :: "string \<Rightarrow> string" where
  "trim_dashes s = rev (dropWhile (\<lambda>c. c = CHR ''-'') (rev (dropWhile (\<lambda>c. c = CHR ''-'') s)))"

definition clean_steps :: "(string \<Rightarrow> string) \<Rightarrow> string \<Rightarrow> string" where
  "clean_steps lw s =
     drop_leading_dot (trim_dashes (strip_residues (strip_star_dot (trim_space (ToLower lw s)))))"

text \<open>The lines \<^verbatim>\<open>findSubdomains\<close> prints for a subdomain that is new.\<close>

definition subdomain_lines :: "Crawler \<Rightarrow> string \<Rightarrow> string list" where
  "subdomain_lines c sub =
     (if JsonOutput c then
        (case MarshalToString c \<lparr>Input = Input_crawler c, Source = ''body'',
                OutputType = ''subdomain'', Output = sub, StatusCode = 0, Length = 0\<rparr> of
           Some data \<Rightarrow> [data] | None \<Rightarrow> [])
      else if \<not> Quiet c then
        [''[subdomains] - http://'' @ sub, ''[subdomains] - https://'' @ sub]
      else [sub])"

text \<open>A string made of residues only.\<close>

fun residue_run :: "string \<Rightarrow> bool" where
  "residue_run [] = True"
| "residue_run (a # b # cs) = (lower_ascii [a, b] \<in> set residues \<and> residue_run cs)"
| "residue_run [a] = False"

text \<open>
  The pieces of an in-scope URL text: an optional port (a colon and digits), a label of
  the subdomain part as the pattern has it (any bytes but a dot, at least one), and a
  list of labels each followed by its dot.
\<close>

definition is_port :: "string \<Rightarrow> bool" where
  "is_port port = (port = [] \<or> (\<exists>ds. port = '':'' @ ds \<and> ds \<noteq> [] \<and> (\<forall>d \<in> set ds. isDigit d)))"

definition is_label :: "string \<Rightarrow> bool" where
  "is_label l = (l \<noteq> [] \<and> CHR ''.'' \<notin> set l)"

definition dotted :: "string list \<Rightarrow> string" where
  "dotted labels = concat (map (\<lambda>l. l @ ''.'') labels)"

text \<open>The lines printed for an anchor's URL and for a URL the link finder found.\<close>

definition href_line :: "Crawler \<Rightarrow> string \<Rightarrow> string" where
  "href_line c u =
     render_line c \<lparr>Input = Input_crawler c, Source = ''body'', OutputType = ''href'', Output = u,
         StatusCode = 0, Length = 0\<rparr> (''[href] - '' @ u)"

definition linkfinder_line :: "Crawler \<Rightarrow> string \<Rightarrow> string \<Rightarrow> string" where
  "linkfinder_line c source u =
     (if JsonOutput c then
        (case MarshalToString c \<lparr>Input = Input_crawler c, Source = source,
                OutputType = ''linkfinder'', Output = u, StatusCode = 0, Length = 0\<rparr> of
           Some data \<Rightarrow> data | None \<Rightarrow> [])
      else if Quiet c then u
      else ''[linkfinder] - '' @ u)"

text \<open>
  Canonicalization of a URL given as text, as the callbacks do it: \<^verbatim>\<open>url.Parse\<close>, then
  \<^verbatim>\<open>canonicalizeURL\<close>. \<open>default_port\<close> is the test for a default port in
  \<^verbatim>\<open>canonicalizeURL\<close>.
\<close>

definition Canonicalize :: "string \<Rightarrow> string option" where
  "Canonicalize s = map_option canonicalizeURL (Parse s)"

definition default_port :: "URL \<Rightarrow> bool" where
  "default_port u = ((Scheme u = ''http'' \<and> Port u = ''80'') \<or> (Scheme u = ''https'' \<and> Port u = ''443''))"

section \<open>Properties\<close>

subsection \<open>Printed lines\<close>

lemma emitted_of_emitLine:
  "emitted_of k (emitLine c k' line w) =
     (if OK (unicodeLower c) (emit c) k' \<and> k' = k then emitted_of k w @ [line] else emitted_of k w)"
  by (auto simp: emitted_of_def emitLine_def WriteToFile_def)

lemma emitted_of_update [simp]:
  "emitted_of k (w\<lparr>subSet := a1\<rparr>) = emitted_of k w"
  "emitted_of k (w\<lparr>awsSet := a2\<rparr>) = emitted_of k w"
  "emitted_of k (w\<lparr>jsSet := a3\<rparr>) = emitted_of k w"
  "emitted_of k (w\<lparr>urlSet := a4\<rparr>) = emitted_of k w"
  "emitted_of k (w\<lparr>formSet := a5\<rparr>) = emitted_of k w"
  "emitted_of k (w\<lparr>uploadFormSet := a6\<rparr>) = emitted_of k w"
  "emitted_of k (w\<lparr>seenRender := a7\<rparr>) = emitted_of k w"
  "emitted_of k (w\<lparr>file_lines := a8\<rparr>) = emitted_of k w"
  "emitted_of k (w\<lparr>visits := a9\<rparr>) = emitted_of k w"
  "emitted_of k (w\<lparr>visits_lf := a10\<rparr>) = emitted_of k w"
  by (simp_all add: emitted_of_def)

lemma render_page_count:
  "render_page c u w = (b, w') \<Longrightarrow>
     length (emitted_of ''render'' w') \<le> length (emitted_of ''render'' w) + (if b then 1 else 0)"
  by (auto simp: render_page_def Let_def emitted_of_emitLine Duplicate_def
      split: if_splits prod.splits)

lemma render_network_count:
  "emitted_of ''render'' (render_network c reqURL w) = emitted_of ''render'' w"
  by (auto simp: render_network_def Let_def emitted_of_emitLine Duplicate_def
      split: if_splits prod.splits)

lemma render_loop_count:
  "length (emitted_of ''render'' (render_loop c budget evs w))
     \<le> length (emitted_of ''render'' w) + nat budget"
proof (induction evs arbitrary: budget w)
  case Nil
  then show ?case by simp
next
  case (Cons ev evs)
  show ?case
  proof (cases "budget > 0")
    case False
    then show ?thesis by simp
  next
    case True
    show ?thesis
    proof (cases ev)
      case (Dequeued u)
      obtain b w' where rp: "render_page c u w = (b, w')" by (cases "render_page c u w")
      from render_page_count[OF rp]
      have le: "length (emitted_of ''render'' w') \<le> length (emitted_of ''render'' w) + (if b then 1 else 0)" .
      show ?thesis
      proof (cases b)
        case True
        with rp Dequeued \<open>budget > 0\<close> have
          "render_loop c budget (ev # evs) w = render_loop c (budget - 1) evs w'" by simp
        moreover from Cons.IH[of "budget - 1" w'] le True \<open>budget > 0\<close>
        have "length (emitted_of ''render'' (render_loop c (budget - 1) evs w'))
          \<le> length (emitted_of ''render'' w) + nat budget" by simp
        ultimately show ?thesis by simp
      next
        case False
        with rp Dequeued \<open>budget > 0\<close> have
          "render_loop c budget (ev # evs) w = render_loop c budget evs w'" by simp
        moreover from Cons.IH[of budget w'] le False
        have "length (emitted_of ''render'' (render_loop c budget evs w'))
          \<le> length (emitted_of ''render'' w) + nat budget" by simp
        ultimately show ?thesis by simp
      qed
    next
      case IdleTick
      with True Cons.IH[of budget w] show ?thesis by simp
    next
      case (RequestWillBeSent reqURL)
      with True Cons.IH[of budget "render_network c reqURL w"] show ?thesis
        by (simp add: render_network_count)
    qed
  qed
qed

subsection \<open>Render budget\<close>

text \<open>
  Claim C8, as amended. During a run of the render pass the number of lines printed with
  kind \<^verbatim>\<open>render\<close> grows by at most the render budget in force: the configured
  \<^verbatim>\<open>renderBudget\<close> when it is positive, and 6 when it is zero or negative, because
  \<^verbatim>\<open>StartRenderManager\<close> replaces such a budget by 6 before the loop starts. The bound
  holds after every finite sequence of queue reads, idle ticks and browser requests.
\<close>

theorem render_budget:
  "length (emitted_of ''render'' (StartRenderManager c renderBudget evs w))
     \<le> length (emitted_of ''render'' w) + nat (if renderBudget \<le> 0 then 6 else renderBudget)"
  unfolding StartRenderManager_def by (rule render_loop_count)

text \<open>A run with budget 1 that is offered two pages renders one.\<close>

theorem render_budget_witness:
  "length (emitted_of ''render''
      (StartRenderManager (crawler_of default_flags ''https://a.test/'') 1
         [Dequeued ''https://a.test/'', IdleTick, Dequeued ''https://a.test/x''] emptyWorld))
     \<le> 1"
  using render_budget[of "crawler_of default_flags ''https://a.test/''" 1
      "[Dequeued ''https://a.test/'', IdleTick, Dequeued ''https://a.test/x'']" emptyWorld]
  by (simp add: emitted_of_def emptyWorld_def)

text \<open>
  With \<^verbatim>\<open>renderBudget = 0\<close> the start URL is rendered all the same: one \<^verbatim>\<open>render\<close> line,
  more than the configured budget.
\<close>

theorem render_budget_counterexample:
  "\<not> int (length (emitted_of ''render''
        (StartRenderManager (crawler_of default_flags ''https://a.test/'') 0
           [Dequeued ''https://a.test/''] emptyWorld))) \<le> 0"
  by code_simp

subsection \<open>The linkfinder feed\<close>

lemma feedLinkfinder_seen:
  "ToLower (unicodeLower c) s \<in> jsSet w \<Longrightarrow> feedLinkfinder c s t src w = w"
  by (simp add: feedLinkfinder_def Duplicate_def insert_absorb)

lemma feedLinkfinder_jsSet:
  "jsSet (feedLinkfinder c s t src w) = insert (ToLower (unicodeLower c) s) (jsSet w)"
  by (auto simp: feedLinkfinder_def Duplicate_def Let_def emitLine_def WriteToFile_def
      split: option.splits)

lemma feedLinkfinder_fresh_emitted:
  "ToLower (unicodeLower c) s \<notin> jsSet w \<Longrightarrow> Parse s = Some u \<Longrightarrow>
     emitted_of k (feedLinkfinder c s t src w) =
       (if OK (unicodeLower c) (emit c) ''javascript'' \<and> k = ''javascript''
        then emitted_of k w @ [javascript_line c t src u] else emitted_of k w)"
  by (auto simp: feedLinkfinder_def Duplicate_def Let_def emitted_of_emitLine javascript_line_def)

lemma feedLinkfinder_fresh_visits:
  "ToLower (unicodeLower c) s \<notin> jsSet w \<Longrightarrow> Parse s = Some u \<Longrightarrow>
     visits_lf (feedLinkfinder c s t src w) =
       (if InScope u (URLFilters c)
        then visits_lf w
               @ (if Contains (canonicalizeURL u) ''.min.js''
                  then [ReplaceAll (canonicalizeURL u) ''.min.js'' ''.js''] else [])
               @ [canonicalizeURL u]
        else visits_lf w)"
  by (auto simp: feedLinkfinder_def Duplicate_def Let_def emitLine_def WriteToFile_def)

text \<open>
  Claim C9. \<^verbatim>\<open>feedLinkfinder\<close> deduplicates on the lowercased text of its argument, before
  the text is parsed and canonicalized. Take two calls in a row whose arguments parse
  and whose keys are new: when the arguments differ only in letter case, the second call
  prints nothing, so one \<^verbatim>\<open>javascript\<close> line comes out; when their lowercased texts
  differ, each call prints its own \<^verbatim>\<open>javascript\<close> line, also when both arguments have the
  same canonical form.
\<close>

theorem feedLinkfinder_dedup_raw:
  assumes "Parse s1 = Some u1" and "Parse s2 = Some u2"
    and "OK (unicodeLower c) (emit c) ''javascript''"
    and "ToLower (unicodeLower c) s1 \<notin> jsSet w" and "ToLower (unicodeLower c) s2 \<notin> jsSet w"
  shows "emitted_of ''javascript''
           (feedLinkfinder c s2 t2 src2 (feedLinkfinder c s1 t1 src1 w)) =
         emitted_of ''javascript'' w @
           (if ToLower (unicodeLower c) s1 = ToLower (unicodeLower c) s2 then [javascript_line c t1 src1 u1]
            else [javascript_line c t1 src1 u1, javascript_line c t2 src2 u2])"
proof (cases "ToLower (unicodeLower c) s1 = ToLower (unicodeLower c) s2")
  case True
  then have "ToLower (unicodeLower c) s2 \<in> jsSet (feedLinkfinder c s1 t1 src1 w)"
    by (simp add: feedLinkfinder_jsSet)
  then have "feedLinkfinder c s2 t2 src2 (feedLinkfinder c s1 t1 src1 w)
      = feedLinkfinder c s1 t1 src1 w" by (rule feedLinkfinder_seen)
  with True assms show ?thesis by (simp add: feedLinkfinder_fresh_emitted)
next
  case False
  with assms(5) have "ToLower (unicodeLower c) s2 \<notin> jsSet (feedLinkfinder c s1 t1 src1 w)"
    by (auto simp: feedLinkfinder_jsSet)
  from feedLinkfinder_fresh_emitted[OF this assms(2)] False assms
  show ?thesis by (simp add: feedLinkfinder_fresh_emitted)
qed

text \<open>
  Two spellings of one asset, one with the default port and a fragment, print two equal
  lines; two spellings that differ in letter case print one.
\<close>

theorem feedLinkfinder_dedup_raw_witness:
  "emitted_of ''javascript''
     (feedLinkfinder (crawler_of default_flags ''https://a.test/'') ''https://a.test:443/app.js#top''
        ''javascript'' ''body''
        (feedLinkfinder (crawler_of default_flags ''https://a.test/'') ''https://a.test/app.js''
           ''javascript'' ''body'' emptyWorld))
     = [''[javascript] - https://a.test/app.js'', ''[javascript] - https://a.test/app.js'']
   \<and> emitted_of ''javascript''
     (feedLinkfinder (crawler_of default_flags ''https://a.test/'') ''https://a.test/APP.js''
        ''javascript'' ''body''
        (feedLinkfinder (crawler_of default_flags ''https://a.test/'') ''https://a.test/app.js''
           ''javascript'' ''body'' emptyWorld))
     = [''[javascript] - https://a.test/app.js'']"
proof -
  let ?c = "crawler_of default_flags ''https://a.test/''"
  let ?s1 = "''https://a.test/app.js''"
  let ?s2 = "''https://a.test:443/app.js#top''"
  let ?s3 = "''https://a.test/APP.js''"
  have p1: "Parse ?s1 = Some (must_parse ?s1)" by code_simp
  have p2: "Parse ?s2 = Some (must_parse ?s2)" by code_simp
  have p3: "Parse ?s3 = Some (must_parse ?s3)" by code_simp
  have ok: "OK (unicodeLower ?c) (emit ?c) ''javascript''" by code_simp
  have f1: "ToLower (unicodeLower ?c) ?s1 \<notin> jsSet emptyWorld" by (simp add: emptyWorld_def)
  have f2: "ToLower (unicodeLower ?c) ?s2 \<notin> jsSet emptyWorld" by (simp add: emptyWorld_def)
  have f3: "ToLower (unicodeLower ?c) ?s3 \<notin> jsSet emptyWorld" by (simp add: emptyWorld_def)
  have ne: "ToLower (unicodeLower ?c) ?s1 \<noteq> ToLower (unicodeLower ?c) ?s2" by code_simp
  have eq: "ToLower (unicodeLower ?c) ?s1 = ToLower (unicodeLower ?c) ?s3" by code_simp
  have l1: "javascript_line ?c ''javascript'' ''body'' (must_parse ?s1)
      = ''[javascript] - https://a.test/app.js''" by code_simp
  have l2: "javascript_line ?c ''javascript'' ''body'' (must_parse ?s2)
      = ''[javascript] - https://a.test/app.js''" by code_simp
  have e0: "emitted_of ''javascript'' emptyWorld = []"
    by (simp add: emitted_of_def emptyWorld_def)
  from feedLinkfinder_dedup_raw[OF p1 p2 ok f1 f2,
      of "''javascript''" "''body''" "''javascript''" "''body''"]
  have a: "emitted_of ''javascript''
     (feedLinkfinder ?c ?s2 ''javascript'' ''body''
        (feedLinkfinder ?c ?s1 ''javascript'' ''body'' emptyWorld))
     = [''[javascript] - https://a.test/app.js'', ''[javascript] - https://a.test/app.js'']"
    unfolding l1 l2 e0 using ne by simp
  from feedLinkfinder_dedup_raw[OF p1 p3 ok f1 f3,
      of "''javascript''" "''body''" "''javascript''" "''body''"]
  have b: "emitted_of ''javascript''
     (feedLinkfinder ?c ?s3 ''javascript'' ''body''
        (feedLinkfinder ?c ?s1 ''javascript'' ''body'' emptyWorld))
     = [''[javascript] - https://a.test/app.js'']"
    unfolding l1 e0 using eq by simp
  from a b show ?thesis by (rule conjI)
qed

lemma HasSuffix_Contains: "HasSuffix s p \<Longrightarrow> Contains s p"
proof (induction s)
  case Nil
  then show ?case by (simp add: HasSuffix_def)
next
  case (Cons c cs)
  show ?case
  proof (cases "length p \<le> length cs")
    case True
    with Cons.prems have "HasSuffix cs p" by (simp add: HasSuffix_def Suc_diff_le)
    with Cons.IH show ?thesis by simp
  next
    case False
    with Cons.prems have "p = c # cs" by (simp add: HasSuffix_def)
    then have "HasPrefix (c # cs) p" by (simp add: HasPrefix_def)
    then show ?thesis by simp
  qed
qed

text \<open>
  Claim C7, as amended. For a script asset URL handed to \<^verbatim>\<open>feedLinkfinder\<close> that is new,
  parses and is in scope, the collector is asked to visit the canonical URL, and before
  it the un-minified counterpart (every \<^verbatim>\<open>.min.js\<close> of the canonical URL replaced by
  \<^verbatim>\<open>.js\<close>) if and only if the canonical URL contains \<^verbatim>\<open>.min.js\<close> somewhere; a URL that
  ends in \<^verbatim>\<open>.min.js\<close> is one such.
\<close>

theorem feedLinkfinder_unminified:
  assumes "ToLower (unicodeLower c) s \<notin> jsSet w" and "Parse s = Some u" and "InScope u (URLFilters c)"
  shows "visits_lf (feedLinkfinder c s t src w) =
           visits_lf w
             @ (if Contains (canonicalizeURL u) ''.min.js''
                then [ReplaceAll (canonicalizeURL u) ''.min.js'' ''.js''] else [])
             @ [canonicalizeURL u]
         \<and> (HasSuffix (canonicalizeURL u) ''.min.js'' \<longrightarrow> Contains (canonicalizeURL u) ''.min.js'')"
  using assms by (simp add: feedLinkfinder_fresh_visits HasSuffix_Contains)

theorem feedLinkfinder_unminified_witness:
  "visits_lf (feedLinkfinder (crawler_of default_flags ''https://a.test/'')
       ''https://a.test/lib.min.js'' ''javascript'' ''body'' emptyWorld)
     = [''https://a.test/lib.js'', ''https://a.test/lib.min.js'']"
proof -
  let ?c = "crawler_of default_flags ''https://a.test/''"
  let ?u = "must_parse ''https://a.test/lib.min.js''"
  have h1: "ToLower (unicodeLower ?c) ''https://a.test/lib.min.js'' \<notin> jsSet emptyWorld"
    by (simp add: emptyWorld_def)
  have h2: "Parse ''https://a.test/lib.min.js'' = Some ?u" by code_simp
  have h3: "InScope ?u (URLFilters ?c)" by code_simp
  have cu: "canonicalizeURL ?u = ''https://a.test/lib.min.js''" by code_simp
  have ct: "Contains ''https://a.test/lib.min.js'' ''.min.js''" by code_simp
  have rp: "ReplaceAll ''https://a.test/lib.min.js'' ''.min.js'' ''.js'' = ''https://a.test/lib.js''"
    by code_simp
  from feedLinkfinder_unminified[OF h1 h2 h3, of "''javascript''" "''body''"]
  show ?thesis unfolding cu by (simp only: ct rp if_True emptyWorld_def World.simps append.simps)
qed

text \<open>
  A script URL with a query does not end in \<^verbatim>\<open>.min.js\<close>, and its un-minified
  counterpart is visited all the same.
\<close>

theorem feedLinkfinder_unminified_counterexample:
  "\<not> HasSuffix ''https://a.test/app.min.js?v=1'' ''.min.js''
   \<and> visits_lf (feedLinkfinder (crawler_of default_flags ''https://a.test/'')
         ''https://a.test/app.min.js?v=1'' ''javascript'' ''body'' emptyWorld)
       = [''https://a.test/app.js?v=1'', ''https://a.test/app.min.js?v=1'']"
  by code_simp

subsection \<open>Status codes\<close>

lemma emitted_of_emitURL:
  "emitted_of ''url'' (emitURL c status len u w) =
     (if OK (unicodeLower c) (emit c) ''url''
      then emitted_of ''url'' w @
        [render_line c \<lparr>Input = Input_crawler c, Source = ''body'', OutputType = ''url'', Output = u,
            StatusCode = status, Length = len\<rparr>
           (if length_flag c
            then ''[url] - [code-'' @ itoa status @ ''] - [len_'' @ itoa len @ ''] - '' @ u
            else ''[url] - [code-'' @ itoa status @ ''] - '' @ u)]
      else emitted_of ''url'' w)"
  by (simp add: emitURL_def Let_def emitted_of_emitLine)

text \<open>
  The error callback of the primary collector prints nothing for 404, 429, a status
  below 100 and a status from 500 on, and one \<^verbatim>\<open>url\<close> line for every other status.
\<close>

lemma OnError_suppressed: "suppressed (Resp_StatusCode r) \<Longrightarrow> OnError c r w = w"
  by (auto simp: OnError_def suppressed_def)

lemma OnError_emits:
  "\<not> suppressed (Resp_StatusCode r) \<Longrightarrow> OK (unicodeLower c) (emit c) ''url'' \<Longrightarrow>
     length (emitted_of ''url'' (OnError c r w)) = length (emitted_of ''url'' w) + 1"
  by (auto simp: OnError_def suppressed_def emitted_of_emitURL)

text \<open>
  On the primary collector a fetch that colly counts as an error prints what the error
  callback prints. On the linkfinder collector it prints nothing, whatever the status;
  so does a response with one of the statuses held back, since a status below 100 that
  reaches the response callback stops at its guard.
\<close>

lemma C_fetch_error:
  "handleOnError err r \<Longrightarrow> C_fetch c err r w = Returned (OnError c r w)"
  by (simp add: C_fetch_def)

lemma LinkFinderCollector_fetch_error:
  "handleOnError err r \<Longrightarrow> LinkFinderCollector_fetch c err r w = Returned w"
  by (simp add: LinkFinderCollector_fetch_def)

lemma LinkFinderCollector_fetch_suppressed:
  "suppressed (Resp_StatusCode r) \<Longrightarrow> LinkFinderCollector_fetch c err r w = Returned w"
  by (auto simp: LinkFinderCollector_fetch_def handleOnError_def suppressed_def
      LinkFinder_OnResponse_def)

lemma C_fetch_suppressed:
  "suppressed (Resp_StatusCode r) \<Longrightarrow> handleOnError err r \<Longrightarrow> C_fetch c err r w = Returned w"
  by (simp add: C_fetch_error OnError_suppressed)

lemma C_fetch_emits:
  "\<not> suppressed (Resp_StatusCode r) \<Longrightarrow> handleOnError err r
     \<Longrightarrow> OK (unicodeLower c) (emit c) ''url''
     \<Longrightarrow> length (emitted_of ''url'' (world_of (C_fetch c err r w)))
           = length (emitted_of ''url'' w) + 1"
  by (simp add: C_fetch_error OnError_emits)

text \<open>
  Claim C3, at a failing input. A script asset is fetched by the linkfinder collector
  and the server answers 403. The status is not one of those held back, so the claim
  has a \<^verbatim>\<open>url\<close> record with the status for it, and the primary collector does print
  one for the same response. The linkfinder collector prints nothing: colly takes a
  status from 203 on for an error, and that collector has no error callback.
\<close>

theorem LinkFinderCollector_fetch_403:
  "\<not> suppressed 403
   \<and> LinkFinderCollector_fetch (crawler_of default_flags ''https://a.test/'') False
        \<lparr>Resp_StatusCode = 403, Body = ''Forbidden'',
         Resp_URL = must_parse ''https://a.test/app.js'', ContentType = ''text/plain''\<rparr> emptyWorld
       = Returned emptyWorld
   \<and> emitted (world_of (C_fetch (crawler_of default_flags ''https://a.test/'') False
        \<lparr>Resp_StatusCode = 403, Body = ''Forbidden'',
         Resp_URL = must_parse ''https://a.test/app.js'', ContentType = ''text/plain''\<rparr> emptyWorld))
       = [(''url'', ''[url] - [code-403] - https://a.test/app.js'')]"
  by code_simp

subsection \<open>Body-length filter\<close>

text \<open>
  The primary response callback prints nothing when the filter holds the body length it
  computed, whatever the size of the body; the linkfinder callback does the same for a
  body within the grep cap.
\<close>

lemma OnResponse_filtered:
  "contains (filterLengthSlice c) (OnResponse_bodyLen response)
     \<Longrightarrow> OnResponse c response w = Returned w"
  by (cases "filterLengthSlice c") (auto simp: OnResponse_def OnResponse_bodyLen_def Let_def)

lemma LinkFinder_OnResponse_filtered:
  "int (length (Body response)) \<le> maxGrepBody \<Longrightarrow>
   contains (filterLengthSlice c) (int (length (DecodeChars (Body response)))) \<Longrightarrow>
   LinkFinder_OnResponse c response w = Returned w"
  by (cases "filterLengthSlice c") (auto simp: LinkFinder_OnResponse_def Let_def)

lemma LinkFinder_OnResponse_oversized:
  "int (length (Body response)) > maxGrepBody \<Longrightarrow>
   \<not> (Resp_StatusCode response = 404 \<or> Resp_StatusCode response = 429
         \<or> Resp_StatusCode response < 100) \<Longrightarrow>
   LinkFinder_OnResponse c response w =
     Returned (emitURL c (Resp_StatusCode response) (int (length (Body response)))
       (String (Resp_URL response)) w)"
  by (simp add: LinkFinder_OnResponse_def Let_def)

text \<open>
  Claim C4, at a failing input. For a body above the grep cap of 4 MB the linkfinder
  callback prints the \<^verbatim>\<open>url\<close> record and returns before it looks at the filter: a
  response of 4194305 bytes is printed although the filter holds 4194305. (The status is
  200, which colly hands to the response callback.)
\<close>

theorem LinkFinder_OnResponse_oversized_filtered:
  "contains
     (filterLengthSlice (crawler_of (default_flags\<lparr>flag_filter_length := [4194305]\<rparr>) ''https://a.test/''))
     (int (length (replicate 4194305 (CHR ''a''))))
   \<and> (case LinkFinderCollector_fetch
           (crawler_of (default_flags\<lparr>flag_filter_length := [4194305]\<rparr>) ''https://a.test/'')
           False
           \<lparr>Resp_StatusCode = 200, Body = replicate 4194305 (CHR ''a''),
            Resp_URL = must_parse ''https://a.test/big.js'',
            ContentType = ''application/javascript''\<rparr> emptyWorld of
          Returned w \<Rightarrow> length (emitted_of ''url'' w) = 1
        | Panicked w \<Rightarrow> False)"
proof -
  let ?c = "crawler_of (default_flags\<lparr>flag_filter_length := [4194305]\<rparr>) ''https://a.test/''"
  have fl: "filterLengthSlice ?c = [4194305]" by code_simp
  have ok: "OK (unicodeLower ?c) (emit ?c) ''url''" by code_simp
  have e0: "emitted_of ''url'' emptyWorld = []" by (simp add: emitted_of_def emptyWorld_def)
  show ?thesis
    by (simp add: fl LinkFinderCollector_fetch_def handleOnError_def
        LinkFinder_OnResponse_oversized maxGrepBody_def emitted_of_emitURL ok e0)
qed

text \<open>The primary callback holds the same response back.\<close>

lemma OnResponse_oversized_filtered:
  "C_fetch
           (crawler_of (default_flags\<lparr>flag_filter_length := [4194305]\<rparr>) ''https://a.test/'')
           False
           \<lparr>Resp_StatusCode = 200, Body = replicate 4194305 (CHR ''a''),
            Resp_URL = must_parse ''https://a.test/big.js'',
            ContentType = ''application/javascript''\<rparr> emptyWorld = Returned emptyWorld"
proof -
  let ?c = "crawler_of (default_flags\<lparr>flag_filter_length := [4194305]\<rparr>) ''https://a.test/''"
  have fl: "filterLengthSlice ?c = [4194305]" by code_simp
  have "OnResponse ?c
           \<lparr>Resp_StatusCode = 200, Body = replicate 4194305 (CHR ''a''),
            Resp_URL = must_parse ''https://a.test/big.js'',
            ContentType = ''application/javascript''\<rparr> emptyWorld = Returned emptyWorld"
    by (rule OnResponse_filtered) (simp add: fl OnResponse_bodyLen_def maxGrepBody_def)
  then show ?thesis by (simp add: C_fetch_def handleOnError_def)
qed

subsection \<open>Disallowed extensions\<close>




lemma lower_ascii_append [simp]: "lower_ascii (a @ b) = lower_ascii a @ lower_ascii b"
  by (simp add: lower_ascii_def)









text \<open>The long s of \<^verbatim>\<open>(?i)\<close>: a query value that ends in \<^verbatim>\<open>.c\<close>, a long s and \<^verbatim>\<open>s\<close>.\<close>

lemma disallowedExtRE_long_s:
  "MatchString disallowedExtRE (''https://a.test/page?f=x.c'' @ long_s @ ''s'')"
  by code_simp




subsection \<open>Subdomains\<close>

text \<open>
  The loop of \<^verbatim>\<open>cleanName\<close> removes matches of \<^verbatim>\<open>nameStripRE\<close> until none is left; that
  is the same as stripping the leading run of residues.
\<close>

lemma residues_all_lower: "list_all (\<lambda>e. lower_ascii e = e \<and> length e = 2) residues"
  by code_simp

lemma nameStripRE_residues:
  "nameStripRE = Seq Bol (Plus (alts (map lit_ci residues)))"
  by (simp add: nameStripRE_def residues_def)

lemma residues_no_ks:
  "list_all (list_all (\<lambda>c. lowerc c \<noteq> CHR ''k'' \<and> lowerc c \<noteq> CHR ''s'')) residues"
  by code_simp

lemma fold_match_residue:
  assumes "x \<in> set residues"
  shows "fold_match x p \<longleftrightarrow> length p = 2 \<and> lower_ascii p = x"
proof -
  from assms residues_no_ks
  have "\<forall>c \<in> set x. lowerc c \<noteq> CHR ''k'' \<and> lowerc c \<noteq> CHR ''s''"
    by (auto simp: list_all_iff)
  from fold_match_no_ks[OF this]
  have "fold_match x p \<longleftrightarrow> length p = length x \<and> lower_ascii p = lower_ascii x" .
  moreover from assms residues_all_lower have "lower_ascii x = x" "length x = 2"
    by (auto simp: list_all_iff)
  ultimately show ?thesis by simp
qed

lemma matches_residue:
  "matches (alts (map lit_ci residues)) b p rest \<longleftrightarrow> length p = 2 \<and> lower_ascii p \<in> set residues"
proof -
  have ne: "map lit_ci residues \<noteq> []" by (simp add: residues_def)
  have "matches (alts (map lit_ci residues)) b p rest \<longleftrightarrow> (\<exists>x \<in> set residues. fold_match x p)"
    unfolding matches_alts[OF ne] by auto
  also have "\<dots> \<longleftrightarrow> (\<exists>x \<in> set residues. length p = 2 \<and> lower_ascii p = x)"
    using fold_match_residue by blast
  also have "\<dots> \<longleftrightarrow> length p = 2 \<and> lower_ascii p \<in> set residues" by auto
  finally show ?thesis .
qed

lemma residue_run_append:
  "length x = 2 \<Longrightarrow> residue_run (x @ p) \<longleftrightarrow> lower_ascii x \<in> set residues \<and> residue_run p"
proof -
  assume "length x = 2"
  then obtain a b where "x = [a, b]" by (cases x; cases "tl x") auto
  then show ?thesis by simp
qed

lemma matches_Star_residue:
  "matches (Star (alts (map lit_ci residues))) b p rest \<longleftrightarrow> residue_run p"
proof (induction p arbitrary: b rule: residue_run.induct)
  case 1
  show ?case by (subst matches_Star) simp
next
  case (2 x y cs)
  show ?case
  proof
    assume "matches (Star (alts (map lit_ci residues))) b (x # y # cs) rest"
    then obtain p1 p2 where p: "x # y # cs = p1 @ p2" and ne: "p1 \<noteq> []"
      and m1: "matches (alts (map lit_ci residues)) b p1 (p2 @ rest)"
      and m2: "matches (Star (alts (map lit_ci residues))) False p2 rest"
      by (subst (asm) matches_Star) auto
    from m1 have l: "length p1 = 2" and r: "lower_ascii p1 \<in> set residues"
      unfolding matches_residue by simp_all
    from l p have p1: "p1 = [x, y]" and p2: "p2 = cs"
      by (cases p1; cases "tl p1"; auto)+
    from m2 p2 "2.IH"[of False] r p1 show "residue_run (x # y # cs)" by simp
  next
    assume a: "residue_run (x # y # cs)"
    then have r: "lower_ascii [x, y] \<in> set residues" and rc: "residue_run cs" by simp_all
    from r have m1: "matches (alts (map lit_ci residues)) b [x, y] (cs @ rest)"
      unfolding matches_residue by simp
    from rc "2.IH"[of False] r have m2: "matches (Star (alts (map lit_ci residues))) False cs rest"
      by simp
    have "x # y # cs = [x, y] @ cs \<and> [x, y] \<noteq> []" by simp
    with m1 m2 show "matches (Star (alts (map lit_ci residues))) b (x # y # cs) rest"
      by (subst matches_Star) blast
  qed
next
  case (3 a)
  show ?case
  proof
    assume "matches (Star (alts (map lit_ci residues))) b [a] rest"
    then obtain p1 p2 where p: "[a] = p1 @ p2" and ne: "p1 \<noteq> []"
      and m1: "matches (alts (map lit_ci residues)) b p1 (p2 @ rest)"
      by (subst (asm) matches_Star) auto
    from m1 have "length p1 = 2" unfolding matches_residue by simp
    with p have False by (cases p1; cases "tl p1"; auto)
    then show "residue_run [a]" ..
  next
    assume "residue_run [a]"
    then show "matches (Star (alts (map lit_ci residues))) b [a] rest" by simp
  qed
qed

lemma matches_nameStripRE:
  "matches nameStripRE b p rest \<longleftrightarrow> b \<and> p \<noteq> [] \<and> residue_run p"
proof
  assume "matches nameStripRE b p rest"
  then obtain p1 p2 where p: "p = p1 @ p2" and b: "b"
    and m1: "matches (alts (map lit_ci residues)) b p1 (p2 @ rest)"
    and m2: "matches (Star (alts (map lit_ci residues))) (b \<and> p1 = []) p2 rest"
    unfolding nameStripRE_residues Plus_def by (auto simp: matches_Seq)
  from m1 have l: "length p1 = 2" and r: "lower_ascii p1 \<in> set residues"
    unfolding matches_residue by simp_all
  from m2 have "residue_run p2" unfolding matches_Star_residue .
  with l r p have "residue_run p" by (simp add: residue_run_append)
  moreover from l p have "p \<noteq> []" by auto
  ultimately show "b \<and> p \<noteq> [] \<and> residue_run p" using b by simp
next
  assume a: "b \<and> p \<noteq> [] \<and> residue_run p"
  then obtain x y cs where p: "p = [x, y] @ cs" 
    by (cases p rule: residue_run.cases) auto
  with a have r: "lower_ascii [x, y] \<in> set residues" and rc: "residue_run cs" by simp_all
  from r have m1: "matches (alts (map lit_ci residues)) b [x, y] (cs @ rest)"
    unfolding matches_residue by simp
  from rc have m2: "matches (Star (alts (map lit_ci residues))) (b \<and> [x, y] = []) cs rest"
    unfolding matches_Star_residue .
  from m1 m2 p have "matches (Plus (alts (map lit_ci residues))) b p rest"
    unfolding Plus_def matches_Seq by blast
  with a show "matches nameStripRE b p rest"
    unfolding nameStripRE_residues by (subst matches_Seq) auto
qed

lemma strip_residues_run: "residue_run p \<Longrightarrow> strip_residues (p @ rest) = strip_residues rest"
  by (induction p rule: residue_run.induct) auto


lemma FindStringIndex_nameStripRE_Some:
  assumes "FindStringIndex nameStripRE name = Some (i0, i1)"
  shows "\<exists>p. name = p @ drop i1 name \<and> residue_run p"
proof -
  from assms have "first_match nameStripRE name [0..<Suc (length name)] = Some (i0, i1)"
    by (simp add: FindStringIndex_def doExecute_def)
  from first_match_Some[OF this] have ma: "match_at nameStripRE name i0 = Some i1"
    and i0: "i0 \<le> length name" by (simp_all del: upt_Suc)
  from ma obtain b' s' rest where m: "mt nameStripRE (i0 = 0) (drop i0 name) = (b', s') # rest"
    and i1: "i1 = length name - length s'"
    by (auto simp: match_at_def split: list.splits)
  from m have "(b', s') \<in> set (mt nameStripRE (i0 = 0) (drop i0 name))" by simp
  then obtain p where d: "drop i0 name = p @ s'" and mp: "matches nameStripRE (i0 = 0) p s'"
    unfolding mt_matches by blast
  from mp have z: "i0 = 0" and run: "residue_run p" unfolding matches_nameStripRE by simp_all
  from d z have n: "name = p @ s'" by simp
  with i1 have "drop i1 name = s'" by simp
  with n run show ?thesis by auto
qed

lemma FindStringIndex_nameStripRE_None:
  assumes "FindStringIndex nameStripRE name = None"
  shows "strip_residues name = name"
proof (cases name)
  case Nil
  then show ?thesis by simp
next
  case outer: (Cons a t)
  show ?thesis
  proof (cases t)
    case Nil
    with outer show ?thesis by simp
  next
    case (Cons b cs)
    with outer have 1: "name = a # b # cs" by simp
    have "\<not> lower_ascii [a, b] \<in> set residues"
    proof
      assume r: "lower_ascii [a, b] \<in> set residues"
      then have "matches nameStripRE True [a, b] cs" unfolding matches_nameStripRE by simp
      with 1 have "name = [] @ [a, b] @ cs \<and> matches nameStripRE (([]::string) = []) [a, b] cs" by simp
      then have "MatchString nameStripRE name" unfolding MatchString_matches by blast
      with assms show False by (simp add: MatchString_def FindStringIndex_def)
    qed
    with 1 show ?thesis by simp
  qed
qed

lemma cleanName_strip_eq: "cleanName_strip name = strip_residues name"
proof (induction name rule: cleanName_strip.induct)
  case (1 name)
  show ?case
  proof (cases "FindStringIndex nameStripRE name")
    case None
    then show ?thesis
      by (subst cleanName_strip.simps) (simp add: FindStringIndex_nameStripRE_None)
  next
    case (Some a)
    obtain i0 i1 where a: "a = (i0, i1)" by (cases a)
    with Some have f: "FindStringIndex nameStripRE name = Some (i0, i1)" by simp
    from FindStringIndex_nameStripRE_Some[OF f] obtain p where
      n: "name = p @ drop i1 name" and run: "residue_run p" by blast
    from "1.IH"[OF f refl] have "cleanName_strip (drop i1 name) = strip_residues (drop i1 name)" .
    moreover have "strip_residues name = strip_residues (drop i1 name)"
      using strip_residues_run[OF run, of "drop i1 name"] n by simp
    moreover have "cleanName_strip name = cleanName_strip (drop i1 name)"
      by (subst cleanName_strip.simps) (simp add: f)
    ultimately show ?thesis by simp
  qed
qed

text \<open>The helpers of package \<^verbatim>\<open>strings\<close> do what the steps say.\<close>

lemma HasPrefix_prefix: "HasPrefix s e \<longleftrightarrow> prefix e s"
proof
  assume "HasPrefix s e"
  then have "s = e @ drop (length e) s"
    by (metis HasPrefix_def append_take_drop_id)
  then show "prefix e s" unfolding prefix_def by blast
next
  assume "prefix e s"
  then show "HasPrefix s e" by (auto simp: prefix_def HasPrefix_def)
qed

lemma HasSuffix_suffix: "HasSuffix s e \<longleftrightarrow> suffix e s"
proof
  assume a: "HasSuffix s e"
  then have "s = take (length s - length e) s @ e"
    by (metis HasSuffix_def append_take_drop_id)
  then show "suffix e s" unfolding suffix_def by blast
next
  assume "suffix e s"
  then show "HasSuffix s e" by (auto simp: suffix_def HasSuffix_def)
qed

lemma find_map_rev: "find P (map f xs) = map_option f (find (\<lambda>x. P (f x)) xs)"
  by (induction xs) auto

lemma TrimLeftSpace_ltrim: "TrimLeftSpace s = ltrim white_space s"
proof (induction s rule: TrimLeftSpace.induct)
  case (1 s)
  have f: "find (HasPrefix s) white_space = find (\<lambda>e. e \<noteq> [] \<and> prefix e s) white_space"
    by (rule find_cong) (auto simp: HasPrefix_prefix white_space_nonempty)
  show ?case
  proof (cases "find (HasPrefix s) white_space")
    case None
    with f show ?thesis by (subst TrimLeftSpace.simps, subst ltrim.simps) simp
  next
    case (Some e)
    from "1.IH"[OF Some] Some f show ?thesis
      by (subst TrimLeftSpace.simps, subst ltrim.simps) simp
  qed
qed

lemma TrimRightSpace_rtrim: "TrimRightSpace s = rtrim white_space s"
proof (induction s rule: TrimRightSpace.induct)
  case (1 s)
  have "find (\<lambda>e. e \<noteq> [] \<and> prefix e (rev s)) (map rev white_space)
      = map_option rev (find (\<lambda>e. rev e \<noteq> [] \<and> prefix (rev e) (rev s)) white_space)"
    by (rule find_map_rev)
  also have "find (\<lambda>e. rev e \<noteq> [] \<and> prefix (rev e) (rev s)) white_space
      = find (HasSuffix s) white_space"
    by (rule find_cong) (auto simp: HasSuffix_suffix white_space_nonempty suffix_to_prefix)
  finally have f: "find (\<lambda>e. e \<noteq> [] \<and> prefix e (rev s)) (map rev white_space)
      = map_option rev (find (HasSuffix s) white_space)" .
  show ?case
  proof (cases "find (HasSuffix s) white_space")
    case None
    with f show ?thesis
      unfolding rtrim_def by (subst TrimRightSpace.simps, subst ltrim.simps) simp
  next
    case (Some e)
    have "rtrim white_space s = rev (ltrim (map rev white_space) (drop (length e) (rev s)))"
      unfolding rtrim_def using f Some by (subst ltrim.simps) simp
    also have "drop (length e) (rev s) = rev (take (length s - length e) s)"
    proof -
      from Some have "HasSuffix s e" by (auto simp: find_Some_iff)
      then have "length e \<le> length s" by (simp add: HasSuffix_def)
      then show ?thesis by (simp add: rev_take)
    qed
    finally have "rtrim white_space s = rtrim white_space (take (length s - length e) s)"
      by (simp add: rtrim_def)
    with "1.IH"[OF Some] Some show ?thesis
      by (subst TrimRightSpace.simps) simp
  qed
qed

lemma TrimSpace_trim_space: "TrimSpace s = trim_space s"
  by (simp add: TrimSpace_def trim_space_def TrimLeftSpace_ltrim TrimRightSpace_rtrim)

lemma TrimPrefix_strip_star_dot: "TrimPrefix s ''*.'' = strip_star_dot s"
  by (simp add: TrimPrefix_def strip_star_dot_def HasPrefix_prefix numeral_2_eq_2)

lemma Trim_trim_dashes: "Trim s ''-'' = trim_dashes s"
  by (simp add: Trim_def TrimFunc_def TrimLeft_def TrimRight_def trim_dashes_def)

lemma CleanSubdomain_steps: "CleanSubdomain lw s = clean_steps lw s"
proof -
  let ?n = "trim_dashes (strip_residues (strip_star_dot (trim_space (ToLower lw s))))"
  have "CleanSubdomain lw s = (if length ?n > 1 \<and> ?n ! 0 = CHR ''.'' then drop 1 ?n else ?n)"
    by (simp add: CleanSubdomain_def cleanName_def Let_def cleanName_strip_eq
        TrimSpace_trim_space TrimPrefix_strip_star_dot Trim_trim_dashes)
  also have "\<dots> = drop_leading_dot ?n"
    by (cases ?n) (simp_all add: drop_leading_dot_def)
  finally show ?thesis by (simp add: clean_steps_def)
qed

lemma findSubdomains_sub_emitted:
  "\<exists>new. emitted (findSubdomains_sub c sub w) = emitted w @ new
     \<and> set new \<subseteq> {''subdomains''} \<times> set (subdomain_lines c sub)"
  by (auto simp: findSubdomains_sub_def subdomain_lines_def Duplicate_def Let_def
      emitLine_def WriteToFile_def split: option.splits)

lemma fold_findSubdomains_sub_emitted:
  "\<exists>new. emitted (fold (findSubdomains_sub c) subs w) = emitted w @ new
     \<and> set new \<subseteq> {''subdomains''} \<times> (\<Union>sub \<in> set subs. set (subdomain_lines c sub))"
proof (induction subs arbitrary: w)
  case Nil
  then show ?case by simp
next
  case (Cons sub subs)
  from findSubdomains_sub_emitted[of c sub w] obtain n1 where
    n1: "emitted (findSubdomains_sub c sub w) = emitted w @ n1"
    "set n1 \<subseteq> {''subdomains''} \<times> set (subdomain_lines c sub)" by blast
  from Cons.IH[of "findSubdomains_sub c sub w"] obtain n2 where
    n2: "emitted (fold (findSubdomains_sub c) subs (findSubdomains_sub c sub w))
         = emitted (findSubdomains_sub c sub w) @ n2"
    "set n2 \<subseteq> {''subdomains''} \<times> (\<Union>sub \<in> set subs. set (subdomain_lines c sub))" by blast
  from n1 n2 have "emitted (fold (findSubdomains_sub c) (sub # subs) w) = emitted w @ (n1 @ n2)"
    by simp
  moreover from n1 n2 have "set (n1 @ n2) \<subseteq>
      {''subdomains''} \<times> (\<Union>sub \<in> set (sub # subs). set (subdomain_lines c sub))" by auto
  ultimately show ?case by blast
qed

text \<open>
  The pattern is matched under simple folding: a label may hold a Kelvin sign or a long
  s, and then the match goes to \<^verbatim>\<open>CleanSubdomain\<close> with it.
\<close>

lemma subdomainRegex_kelvin:
  "map_option (\<lambda>re. FindAllString re (''x '' @ kelvin_sign @ ''.a.test''))
       (subdomainRegex compile_none ''a.test'')
     = Some [kelvin_sign @ ''.a.test'']"
  by code_simp

text \<open>
  Claim C10. \<^verbatim>\<open>CleanSubdomain\<close> does to a text what the claim lists, in that order: the
  text is lowercased and trimmed of white space, a leading \<^verbatim>\<open>*.\<close> is removed, the
  leading run of the residues 20, 25, 2b, 2f, 3d, 3a and 40 is stripped, \<^verbatim>\<open>-\<close> is
  trimmed at both ends and a leading dot is dropped (a dot that stands alone is kept).
  And \<^verbatim>\<open>findSubdomains\<close> either panics before it prints, when the subdomain pattern
  does not compile, or every line it prints has kind \<^verbatim>\<open>subdomains\<close> and carries the
  value cleaned in this way of a match \<open>m\<close> of the subdomain pattern in the body.
\<close>

theorem subdomains_cleaned:
  "CleanSubdomain lw s = clean_steps lw s
   \<and> (case findSubdomains c resp w of
        Panicked w' \<Rightarrow> w' = w \<and> subdomainRegex (MustCompile c) (domain c) = None
      | Returned w' \<Rightarrow>
          (\<exists>re new. subdomainRegex (MustCompile c) (domain c) = Some re
             \<and> emitted w' = emitted w @ new
             \<and> (\<forall>kl \<in> set new. fst kl = ''subdomains''
                  \<and> (\<exists>m \<in> set (FindAllString re resp).
                        snd kl \<in> set (subdomain_lines c (clean_steps (unicodeLower c) m))))))"
proof (rule conjI)
  show "CleanSubdomain lw s = clean_steps lw s" by (rule CleanSubdomain_steps)
next
  show "case findSubdomains c resp w of
        Panicked w' \<Rightarrow> w' = w \<and> subdomainRegex (MustCompile c) (domain c) = None
      | Returned w' \<Rightarrow>
          (\<exists>re new. subdomainRegex (MustCompile c) (domain c) = Some re
             \<and> emitted w' = emitted w @ new
             \<and> (\<forall>kl \<in> set new. fst kl = ''subdomains''
                  \<and> (\<exists>m \<in> set (FindAllString re resp).
                        snd kl \<in> set (subdomain_lines c (clean_steps (unicodeLower c) m)))))"
  proof (cases "subdomainRegex (MustCompile c) (domain c)")
    case None
    then show ?thesis by (simp add: findSubdomains_def GetSubdomains_def)
  next
    case (Some re)
    let ?subs = "map (CleanSubdomain (unicodeLower c)) (FindAllString re resp)"
    from Some have f: "findSubdomains c resp w = Returned (fold (findSubdomains_sub c) ?subs w)"
      by (simp add: findSubdomains_def GetSubdomains_def)
    from fold_findSubdomains_sub_emitted[of c ?subs w]
    obtain new where e: "emitted (fold (findSubdomains_sub c) ?subs w) = emitted w @ new"
      and s: "set new \<subseteq> {''subdomains''} \<times> (\<Union>sub \<in> set ?subs. set (subdomain_lines c sub))"
      by blast
    have "\<forall>kl \<in> set new. fst kl = ''subdomains''
            \<and> (\<exists>m \<in> set (FindAllString re resp).
                  snd kl \<in> set (subdomain_lines c (clean_steps (unicodeLower c) m)))"
    proof
      fix kl assume "kl \<in> set new"
      with s have "kl \<in> {''subdomains''} \<times> (\<Union>sub \<in> set ?subs. set (subdomain_lines c sub))"
        by blast
      then have k: "fst kl = ''subdomains''"
        and "snd kl \<in> (\<Union>sub \<in> set ?subs. set (subdomain_lines c sub))"
        by (simp_all add: mem_Times_iff)
      then obtain sub where sub: "sub \<in> set ?subs"
        and l: "snd kl \<in> set (subdomain_lines c sub)" by blast
      from sub have "sub \<in> CleanSubdomain (unicodeLower c) ` set (FindAllString re resp)"
        by simp
      then obtain m where m: "m \<in> set (FindAllString re resp)"
        and sm: "sub = CleanSubdomain (unicodeLower c) m" by blast
      from sm l have "snd kl \<in> set (subdomain_lines c (clean_steps (unicodeLower c) m))"
        by (simp add: CleanSubdomain_steps)
      with k m show "fst kl = ''subdomains''
            \<and> (\<exists>m \<in> set (FindAllString re resp).
                  snd kl \<in> set (subdomain_lines c (clean_steps (unicodeLower c) m)))"
        by blast
    qed
    with e Some f show ?thesis by auto
  qed
qed

text \<open>
  Every step at work: a text with white space, \<^verbatim>\<open>*.\<close>, two residues, dashes and a dot
  around \<^verbatim>\<open>Foo.A.Test\<close>; and a body with four mentions of subdomains of \<^verbatim>\<open>a.test\<close>.
\<close>

theorem subdomains_cleaned_witness:
  "CleanSubdomain lower_none ([CHR 0x09] @ '' *.2f3D-.Foo.A.Test-- '' @ [CHR 0x0A]) = ''foo.a.test''
   \<and> (\<exists>w'. findSubdomains (crawler_of default_flags ''https://a.test/'')
          ''see //%2fApi.A.test/v1, 2F-Img.a.test, 3d.a.test and *.cdn.a.test'' emptyWorld
            = Returned w'
        \<and> list_all (\<lambda>kl. fst kl = ''subdomains'') (emitted w')
        \<and> map snd (emitted w')
            = [''[subdomains] - http://api.a.test'', ''[subdomains] - https://api.a.test'',
               ''[subdomains] - http://img.a.test'', ''[subdomains] - https://img.a.test'',
               ''[subdomains] - http://a.test'', ''[subdomains] - https://a.test'',
               ''[subdomains] - http://cdn.a.test'', ''[subdomains] - https://cdn.a.test''])"
proof -
  define c where "c = crawler_of default_flags ''https://a.test/''"
  define resp where "resp = ''see //%2fApi.A.test/v1, 2F-Img.a.test, 3d.a.test and *.cdn.a.test''"
  define s where "s = [CHR 0x09] @ '' *.2f3D-.Foo.A.Test-- '' @ [CHR 0x0A]"
  define lines where "lines =
     [''[subdomains] - http://api.a.test'', ''[subdomains] - https://api.a.test'',
      ''[subdomains] - http://img.a.test'', ''[subdomains] - https://img.a.test'',
      ''[subdomains] - http://a.test'', ''[subdomains] - https://a.test'',
      ''[subdomains] - http://cdn.a.test'', ''[subdomains] - https://cdn.a.test'']"
  define r0 where "r0 = findSubdomains c resp emptyWorld"
  note th = subdomains_cleaned[where lw = lower_none and s = s and c = c and resp = resp
      and w = emptyWorld]
  have cs: "clean_steps lower_none s = ''foo.a.test''" unfolding s_def by code_simp
  from th[THEN conjunct1] have "CleanSubdomain lower_none s = clean_steps lower_none s" .
  with cs have a: "CleanSubdomain lower_none s = ''foo.a.test''" by (simp only:)
  have ev: "(case r0 of Returned w \<Rightarrow> Some (map snd (emitted w)) | Panicked w \<Rightarrow> None) = Some lines"
    unfolding r0_def c_def resp_def lines_def by code_simp
  then obtain w' where r: "r0 = Returned w'" by (cases r0) simp_all
  with ev have v: "map snd (emitted w') = lines" by simp
  from th[THEN conjunct2] have "case r0 of
        Panicked w' \<Rightarrow> w' = emptyWorld \<and> subdomainRegex (MustCompile c) (domain c) = None
      | Returned w' \<Rightarrow>
          (\<exists>re new. subdomainRegex (MustCompile c) (domain c) = Some re
             \<and> emitted w' = emitted emptyWorld @ new
             \<and> (\<forall>kl \<in> set new. fst kl = ''subdomains''
                  \<and> (\<exists>m \<in> set (FindAllString re resp).
                        snd kl \<in> set (subdomain_lines c (clean_steps (unicodeLower c) m)))))"
    unfolding r0_def .
  with r obtain new where e: "emitted w' = emitted emptyWorld @ new"
    and k: "\<forall>kl \<in> set new. fst kl = ''subdomains''" by auto
  from e have "emitted w' = new" by (simp add: emptyWorld_def)
  with k have b: "list_all (\<lambda>kl. fst kl = ''subdomains'') (emitted w')"
    by (simp add: list_all_iff)
  from r b v have "\<exists>w'. findSubdomains c resp emptyWorld = Returned w'
        \<and> list_all (\<lambda>kl. fst kl = ''subdomains'') (emitted w')
        \<and> map snd (emitted w') = lines" unfolding r0_def by blast
  with a show ?thesis unfolding c_def resp_def s_def lines_def by (rule conjI)
qed

subsection \<open>Scope\<close>

text \<open>
  \<^verbatim>\<open>InScope\<close> holds exactly when one of the patterns matches the URL's text, and without
  \<^verbatim>\<open>--whitelist\<close> every pattern \<^verbatim>\<open>NewCrawler\<close> builds is one of the two scope patterns.
\<close>

lemma InScope_iff: "InScope u regexps \<longleftrightarrow> (\<exists>r \<in> set regexps. MatchString r (String u))"
  by (induction regexps) auto

lemma NewCrawler_URLFilters_shape:
  "r \<in> set (NewCrawler_URLFilters ef site0 domain0 scopeOverride flagSubs0 None whiteListDomain)
     \<Longrightarrow> \<exists>host. r = scope_subs host \<or> r = scope_host host"
  by (auto simp: NewCrawler_URLFilters_def Let_def split: option.splits if_splits list.splits)

text \<open>
  What the two patterns match. The host-only pattern matches the texts \<^verbatim>\<open>http://\<close> or
  \<^verbatim>\<open>https://\<close>, the host, an optional port, and then a slash or the end. The pattern with
  subdomains allows labels between \<^verbatim>\<open>://\<close> and the host, where a label is any run of
  bytes other than a dot.
\<close>

lemma matches_scope_port_end:
  "matches scope_port_end b p rest \<longleftrightarrow>
     (\<exists>port t. p = port @ t \<and> is_port port \<and> (t = ''/'' \<or> (t = [] \<and> rest = [])))"
proof
  assume "matches scope_port_end b p rest"
  then have "\<exists>p1 p2. p = p1 @ p2
      \<and> matches (Opt (Seq (lit '':'') (Plus (Cls isDigit)))) b p1 (p2 @ rest)
      \<and> matches (Alt (lit ''/'') Eol) (b \<and> p1 = []) p2 rest"
    by (simp only: scope_port_end_def
        matches_Seq[of "Opt (Seq (lit '':'') (Plus (Cls isDigit)))" "Alt (lit ''/'') Eol"])
  then obtain p1 p2 where p: "p = p1 @ p2"
    and m1: "matches (Opt (Seq (lit '':'') (Plus (Cls isDigit)))) b p1 (p2 @ rest)"
    and m2: "p2 = ''/'' \<or> (p2 = [] \<and> rest = [])"
    by auto
  from m1 have "is_port p1" unfolding is_port_def by (auto simp: matches_Seq)
  with p m2 show "\<exists>port t. p = port @ t \<and> is_port port \<and> (t = ''/'' \<or> (t = [] \<and> rest = []))"
    by blast
next
  assume "\<exists>port t. p = port @ t \<and> is_port port \<and> (t = ''/'' \<or> (t = [] \<and> rest = []))"
  then obtain port t where p: "p = port @ t" and ip: "is_port port"
    and t: "t = ''/'' \<or> (t = [] \<and> rest = [])" by blast
  from ip have m1: "matches (Opt (Seq (lit '':'') (Plus (Cls isDigit)))) b port (t @ rest)"
  proof (cases "port = []")
    case True
    then show ?thesis by simp
  next
    case False
    with ip obtain ds where ds: "port = '':'' @ ds" "ds \<noteq> []" "\<forall>d \<in> set ds. isDigit d"
      unfolding is_port_def by blast
    then have "matches (lit '':'') b '':'' (ds @ t @ rest)
       \<and> matches (Plus (Cls isDigit)) (b \<and> '':'' = []) ds (t @ rest)" by simp
    with ds(1) have "matches (Seq (lit '':'') (Plus (Cls isDigit))) b port (t @ rest)"
      unfolding matches_Seq by blast
    then show ?thesis by simp
  qed
  from t have m2: "matches (Alt (lit ''/'') Eol) (b \<and> port = []) t rest" by auto
  from p m1 m2 show "matches scope_port_end b p rest"
    unfolding scope_port_end_def
    by (subst matches_Seq) blast
qed

lemma matches_Seq_lit:
  "matches (Seq (lit w) r) b p rest \<longleftrightarrow> (\<exists>q. p = w @ q \<and> matches r (b \<and> w = []) q rest)"
  by (subst matches_Seq) auto

lemma matches_Seq_Opt_lit:
  "matches (Seq (Opt (lit w)) r) b p rest \<longleftrightarrow>
     (\<exists>q. p = w @ q \<and> matches r (b \<and> w = []) q rest) \<or> matches r b p rest"
proof
  assume "matches (Seq (Opt (lit w)) r) b p rest"
  then show "(\<exists>q. p = w @ q \<and> matches r (b \<and> w = []) q rest) \<or> matches r b p rest"
    by (subst (asm) matches_Seq) auto
next
  assume a: "(\<exists>q. p = w @ q \<and> matches r (b \<and> w = []) q rest) \<or> matches r b p rest"
  then show "matches (Seq (Opt (lit w)) r) b p rest"
  proof
    assume "\<exists>q. p = w @ q \<and> matches r (b \<and> w = []) q rest"
    then obtain q where "p = w @ q" "matches (Opt (lit w)) b w (q @ rest)"
      "matches r (b \<and> w = []) q rest" by auto
    then show ?thesis by (subst matches_Seq) blast
  next
    assume "matches r b p rest"
    then have "p = [] @ p \<and> matches (Opt (lit w)) b [] (p @ rest)
      \<and> matches r (b \<and> ([]::string) = []) p rest" by simp
    then show ?thesis by (subst matches_Seq) blast
  qed
qed

lemma matches_scheme:
  "matches (Seq (lit ''http'') (Seq (Opt (lit ''s'')) (Seq (lit ''://'') r))) b p rest \<longleftrightarrow>
     (\<exists>sch q. p = sch @ ''://'' @ q \<and> (sch = ''http'' \<or> sch = ''https'') \<and> matches r False q rest)"
proof
  assume "matches (Seq (lit ''http'') (Seq (Opt (lit ''s'')) (Seq (lit ''://'') r))) b p rest"
  then have "(\<exists>q. p = ''http'' @ ''s'' @ ''://'' @ q \<and> matches r False q rest)
     \<or> (\<exists>q. p = ''http'' @ ''://'' @ q \<and> matches r False q rest)"
    by (auto simp: matches_Seq_lit matches_Seq_Opt_lit)
  then show "\<exists>sch q. p = sch @ ''://'' @ q \<and> (sch = ''http'' \<or> sch = ''https'') \<and> matches r False q rest"
  proof
    assume "\<exists>q. p = ''http'' @ ''s'' @ ''://'' @ q \<and> matches r False q rest"
    then obtain q where "p = ''https'' @ ''://'' @ q" "matches r False q rest" by auto
    then show ?thesis by blast
  next
    assume "\<exists>q. p = ''http'' @ ''://'' @ q \<and> matches r False q rest"
    then show ?thesis by blast
  qed
next
  assume "\<exists>sch q. p = sch @ ''://'' @ q \<and> (sch = ''http'' \<or> sch = ''https'') \<and> matches r False q rest"
  then obtain sch q where p: "p = sch @ ''://'' @ q" and sch: "sch = ''http'' \<or> sch = ''https''"
    and m: "matches r False q rest" by blast
  from sch show "matches (Seq (lit ''http'') (Seq (Opt (lit ''s'')) (Seq (lit ''://'') r))) b p rest"
  proof
    assume "sch = ''http''"
    with p m show ?thesis by (auto simp: matches_Seq_lit matches_Seq_Opt_lit)
  next
    assume "sch = ''https''"
    with p m show ?thesis by (auto simp: matches_Seq_lit matches_Seq_Opt_lit)
  qed
qed

lemma matches_scope_host:
  "matches (scope_host host) b p rest \<longleftrightarrow>
     b \<and> (\<exists>sch port t. p = sch @ ''://'' @ host @ port @ t \<and> (sch = ''http'' \<or> sch = ''https'')
            \<and> is_port port \<and> (t = ''/'' \<or> (t = [] \<and> rest = [])))"
proof -
  have "matches (scope_host host) b p rest \<longleftrightarrow>
      b \<and> matches (Seq (lit ''http'') (Seq (Opt (lit ''s'')) (Seq (lit ''://'')
            (Seq (lit host) scope_port_end)))) b p rest"
    by (auto simp: scope_host_def QuoteMeta_def matches_Seq[of Bol])
  also have "\<dots> \<longleftrightarrow> b \<and> (\<exists>sch q. p = sch @ ''://'' @ q \<and> (sch = ''http'' \<or> sch = ''https'')
            \<and> matches (Seq (lit host) scope_port_end) False q rest)"
    by (simp only: matches_scheme)
  also have "\<dots> \<longleftrightarrow> b \<and> (\<exists>sch port t. p = sch @ ''://'' @ host @ port @ t
            \<and> (sch = ''http'' \<or> sch = ''https'')
            \<and> is_port port \<and> (t = ''/'' \<or> (t = [] \<and> rest = [])))"
    unfolding matches_Seq_lit matches_scope_port_end by blast
  finally show ?thesis .
qed

lemma MatchString_scope_host:
  "MatchString (scope_host host) s \<longleftrightarrow>
     (\<exists>sch port rest. s = sch @ ''://'' @ host @ port @ rest \<and> (sch = ''http'' \<or> sch = ''https'')
         \<and> is_port port \<and> (rest = [] \<or> hd rest = CHR ''/''))"
proof
  assume "MatchString (scope_host host) s"
  then obtain pre p rest where s: "s = pre @ p @ rest" and m: "matches (scope_host host) (pre = []) p rest"
    unfolding MatchString_matches by blast
  from m obtain sch port t where pre: "pre = []" and p: "p = sch @ ''://'' @ host @ port @ t"
    and sch: "sch = ''http'' \<or> sch = ''https''" and port: "is_port port"
    and t: "t = ''/'' \<or> (t = [] \<and> rest = [])"
    unfolding matches_scope_host by blast
  from s pre p have "s = sch @ ''://'' @ host @ port @ (t @ rest)" by simp
  moreover from t have "t @ rest = [] \<or> hd (t @ rest) = CHR ''/''" by auto
  ultimately show "\<exists>sch port rest. s = sch @ ''://'' @ host @ port @ rest
      \<and> (sch = ''http'' \<or> sch = ''https'') \<and> is_port port \<and> (rest = [] \<or> hd rest = CHR ''/'')"
    using sch port by blast
next
  assume "\<exists>sch port rest. s = sch @ ''://'' @ host @ port @ rest
      \<and> (sch = ''http'' \<or> sch = ''https'') \<and> is_port port \<and> (rest = [] \<or> hd rest = CHR ''/'')"
  then obtain sch port rest where s: "s = sch @ ''://'' @ host @ port @ rest"
    and sch: "sch = ''http'' \<or> sch = ''https''" and port: "is_port port"
    and r: "rest = [] \<or> hd rest = CHR ''/''" by blast
  define t where "t = take 1 rest"
  define rest' where "rest' = drop 1 rest"
  from r have t: "t = ''/'' \<or> (t = [] \<and> rest' = [])" by (cases rest) (auto simp: t_def rest'_def)
  have tr: "rest = t @ rest'" by (simp add: t_def rest'_def)
  from sch port t have "matches (scope_host host) True (sch @ ''://'' @ host @ port @ t) rest'"
    unfolding matches_scope_host by blast
  moreover from s tr have "s = [] @ (sch @ ''://'' @ host @ port @ t) @ rest'" by simp
  ultimately show "MatchString (scope_host host) s"
    unfolding MatchString_matches by (metis (full_types))
qed


lemma matches_label_dot:
  "matches (Seq (Plus (Cls (\<lambda>c. c \<noteq> CHR ''.''))) (lit ''.'')) b p rest \<longleftrightarrow>
     (\<exists>l. p = l @ ''.'' \<and> is_label l)"
  by (subst matches_Seq) (auto simp: is_label_def)

lemma matches_labels_fwd:
  "matches (Star (Seq (Plus (Cls (\<lambda>c. c \<noteq> CHR ''.''))) (lit ''.''))) b p rest \<Longrightarrow>
     \<exists>labels. p = dotted labels \<and> (\<forall>l \<in> set labels. is_label l)"
proof (induction "length p" arbitrary: b p rule: less_induct)
  case less
  from less.prems have "p = [] \<or> (\<exists>p1 p2. p = p1 @ p2 \<and> p1 \<noteq> []
       \<and> matches (Seq (Plus (Cls (\<lambda>c. c \<noteq> CHR ''.''))) (lit ''.'')) b p1 (p2 @ rest)
       \<and> matches (Star (Seq (Plus (Cls (\<lambda>c. c \<noteq> CHR ''.''))) (lit ''.''))) False p2 rest)"
    by (subst (asm) matches_Star) simp
  then show ?case
  proof
    assume "p = []"
    then have "p = dotted [] \<and> (\<forall>l \<in> set ([]::string list). is_label l)" by (simp add: dotted_def)
    then show ?thesis by blast
  next
    assume "\<exists>p1 p2. p = p1 @ p2 \<and> p1 \<noteq> []
       \<and> matches (Seq (Plus (Cls (\<lambda>c. c \<noteq> CHR ''.''))) (lit ''.'')) b p1 (p2 @ rest)
       \<and> matches (Star (Seq (Plus (Cls (\<lambda>c. c \<noteq> CHR ''.''))) (lit ''.''))) False p2 rest"
    then obtain p1 p2 where p: "p = p1 @ p2" and ne: "p1 \<noteq> []"
      and m1: "matches (Seq (Plus (Cls (\<lambda>c. c \<noteq> CHR ''.''))) (lit ''.'')) b p1 (p2 @ rest)"
      and m2: "matches (Star (Seq (Plus (Cls (\<lambda>c. c \<noteq> CHR ''.''))) (lit ''.''))) False p2 rest"
      by blast
    from m1 obtain l where l: "p1 = l @ ''.''" "is_label l" unfolding matches_label_dot by blast
    from p ne have "length p2 < length p" by simp
    from less.hyps[OF this m2] obtain ls where ls: "p2 = dotted ls" "\<forall>l \<in> set ls. is_label l"
      by blast
    from p l ls have "p = dotted (l # ls) \<and> (\<forall>x \<in> set (l # ls). is_label x)"
      by (simp add: dotted_def)
    then show ?thesis by blast
  qed
qed

lemma matches_labels_bwd:
  "\<forall>l \<in> set labels. is_label l \<Longrightarrow>
     matches (Star (Seq (Plus (Cls (\<lambda>c. c \<noteq> CHR ''.''))) (lit ''.''))) b (dotted labels) rest"
proof (induction labels arbitrary: b)
  case Nil
  show ?case by (subst matches_Star) (simp add: dotted_def)
next
  case (Cons l ls)
  then have il: "is_label l" and m2: "matches (Star (Seq (Plus (Cls (\<lambda>c. c \<noteq> CHR ''.''))) (lit ''.''))) False (dotted ls) rest"
    by simp_all
  from il have m1: "matches (Seq (Plus (Cls (\<lambda>c. c \<noteq> CHR ''.''))) (lit ''.'')) b (l @ ''.'') (dotted ls @ rest)"
    unfolding matches_label_dot by blast
  have "dotted (l # ls) = (l @ ''.'') @ dotted ls \<and> l @ ''.'' \<noteq> []" by (simp add: dotted_def)
  with m1 m2 show ?case by (subst matches_Star) blast
qed

lemma matches_labels:
  "matches (Star (Seq (Plus (Cls (\<lambda>c. c \<noteq> CHR ''.''))) (lit ''.''))) b p rest \<longleftrightarrow>
     (\<exists>labels. p = dotted labels \<and> (\<forall>l \<in> set labels. is_label l))"
  using matches_labels_fwd matches_labels_bwd by blast

lemma matches_scope_subs:
  "matches (scope_subs host) b p rest \<longleftrightarrow>
     b \<and> (\<exists>sch labels port t. p = sch @ ''://'' @ dotted labels @ host @ port @ t
            \<and> (sch = ''http'' \<or> sch = ''https'') \<and> (\<forall>l \<in> set labels. is_label l)
            \<and> is_port port \<and> (t = ''/'' \<or> (t = [] \<and> rest = [])))"
proof -
  have "matches (scope_subs host) b p rest \<longleftrightarrow>
      b \<and> matches (Seq (lit ''http'') (Seq (Opt (lit ''s'')) (Seq (lit ''://'')
            (Seq (Star (Seq (Plus (Cls (\<lambda>c. c \<noteq> CHR ''.''))) (lit ''.'')))
               (Seq (lit host) scope_port_end))))) b p rest"
    by (auto simp: scope_subs_def QuoteMeta_def matches_Seq[of Bol])
  also have "\<dots> \<longleftrightarrow> b \<and> (\<exists>sch q. p = sch @ ''://'' @ q \<and> (sch = ''http'' \<or> sch = ''https'')
            \<and> matches (Seq (Star (Seq (Plus (Cls (\<lambda>c. c \<noteq> CHR ''.''))) (lit ''.'')))
               (Seq (lit host) scope_port_end)) False q rest)"
    by (simp only: matches_scheme)
  also have "\<dots> \<longleftrightarrow> b \<and> (\<exists>sch labels port t. p = sch @ ''://'' @ dotted labels @ host @ port @ t
            \<and> (sch = ''http'' \<or> sch = ''https'') \<and> (\<forall>l \<in> set labels. is_label l)
            \<and> is_port port \<and> (t = ''/'' \<or> (t = [] \<and> rest = [])))"
    unfolding matches_Seq[of "Star (Seq (Plus (Cls (\<lambda>c. c \<noteq> CHR ''.''))) (lit ''.''))"]
      matches_labels matches_Seq_lit matches_scope_port_end
    by blast
  finally show ?thesis .
qed

lemma MatchString_scope_subs:
  "MatchString (scope_subs host) s \<longleftrightarrow>
     (\<exists>sch labels port rest. s = sch @ ''://'' @ dotted labels @ host @ port @ rest
         \<and> (sch = ''http'' \<or> sch = ''https'') \<and> (\<forall>l \<in> set labels. is_label l)
         \<and> is_port port \<and> (rest = [] \<or> hd rest = CHR ''/''))"
proof
  assume "MatchString (scope_subs host) s"
  then obtain pre p rest where s: "s = pre @ p @ rest" and m: "matches (scope_subs host) (pre = []) p rest"
    unfolding MatchString_matches by blast
  from m obtain sch labels port t where pre: "pre = []"
    and p: "p = sch @ ''://'' @ dotted labels @ host @ port @ t"
    and sch: "sch = ''http'' \<or> sch = ''https''" and ls: "\<forall>l \<in> set labels. is_label l"
    and port: "is_port port"
    and t: "t = ''/'' \<or> (t = [] \<and> rest = [])"
    unfolding matches_scope_subs by blast
  from s pre p have "s = sch @ ''://'' @ dotted labels @ host @ port @ (t @ rest)" by simp
  moreover from t have "t @ rest = [] \<or> hd (t @ rest) = CHR ''/''" by auto
  ultimately show "\<exists>sch labels port rest. s = sch @ ''://'' @ dotted labels @ host @ port @ rest
      \<and> (sch = ''http'' \<or> sch = ''https'') \<and> (\<forall>l \<in> set labels. is_label l)
      \<and> is_port port \<and> (rest = [] \<or> hd rest = CHR ''/'')"
    using sch port ls by blast
next
  assume "\<exists>sch labels port rest. s = sch @ ''://'' @ dotted labels @ host @ port @ rest
      \<and> (sch = ''http'' \<or> sch = ''https'') \<and> (\<forall>l \<in> set labels. is_label l)
      \<and> is_port port \<and> (rest = [] \<or> hd rest = CHR ''/'')"
  then obtain sch labels port rest where s: "s = sch @ ''://'' @ dotted labels @ host @ port @ rest"
    and sch: "sch = ''http'' \<or> sch = ''https''" and ls: "\<forall>l \<in> set labels. is_label l"
    and port: "is_port port"
    and r: "rest = [] \<or> hd rest = CHR ''/''" by blast
  define t where "t = take 1 rest"
  define rest' where "rest' = drop 1 rest"
  from r have t: "t = ''/'' \<or> (t = [] \<and> rest' = [])" by (cases rest) (auto simp: t_def rest'_def)
  have tr: "rest = t @ rest'" by (simp add: t_def rest'_def)
  from sch port t ls
  have "matches (scope_subs host) True (sch @ ''://'' @ dotted labels @ host @ port @ t) rest'"
    unfolding matches_scope_subs by blast
  moreover from s tr have "s = [] @ (sch @ ''://'' @ dotted labels @ host @ port @ t) @ rest'" by simp
  ultimately show "MatchString (scope_subs host) s"
    unfolding MatchString_matches by (metis (full_types))
qed


text \<open>
  Claim C1, at a failing input. For the bare-domain target \<^verbatim>\<open>example.com\<close> the scope is
  the pattern with subdomains. Its label class \<^verbatim>\<open>[^.]+\<close> also takes a slash, so the URL
  \<^verbatim>\<open>https://evil.com/a.example.com/\<close> is in scope (\<^verbatim>\<open>evil.\<close> and \<^verbatim>\<open>com/a.\<close> are read as
  labels) although its host is \<^verbatim>\<open>evil.com\<close>, and an anchor to it is printed as an
  \<^verbatim>\<open>href\<close> record and queued for a visit.
\<close>

theorem scope_subs_foreign_host:
  "InScope (must_parse ''https://evil.com/a.example.com/'')
      (URLFilters (crawler_of default_flags ''example.com''))
   \<and> Hostname (must_parse ''https://evil.com/a.example.com/'') = ''evil.com''
   \<and> emitted (OnHTML (crawler_of default_flags ''example.com'')
        \<lparr>Name = ''a'', AbsoluteURL_href = ''https://evil.com/a.example.com/'', AbsoluteURL_src = [],
         Request_URL = must_parse ''https://example.com/''\<rparr> emptyWorld)
       = [(''href'', ''[href] - https://evil.com/a.example.com/'')]
   \<and> visits (OnHTML (crawler_of default_flags ''example.com'')
        \<lparr>Name = ''a'', AbsoluteURL_href = ''https://evil.com/a.example.com/'', AbsoluteURL_src = [],
         Request_URL = must_parse ''https://example.com/''\<rparr> emptyWorld)
       = [''https://evil.com/a.example.com/'']"
  by code_simp

subsection \<open>Bare-domain scope\<close>

lemma OnHTML_href_emitted:
  assumes "Name e = ''a'' \<or> Name e = ''link''"
  shows "\<exists>new. emitted (OnHTML c e w) = emitted w @ new
           \<and> set new \<subseteq> {(''href'', href_line c (canonicalizeURL u)) | u. InScope u (URLFilters c)}"
proof -
  have n: "(Name e = ''a'' \<or> Name e = ''link'') = True" using assms by simp
  show ?thesis
    unfolding OnHTML_def n if_True
    by (auto simp: Let_def Duplicate_def emitLine_def WriteToFile_def href_line_def
        split: option.splits)
qed

lemma render_page_emitted:
  "render_page c u w = (b, w') \<Longrightarrow>
     \<exists>new. emitted w' = emitted w @ new
       \<and> set new \<subseteq> {(''render'', ''[render] - '' @ u) | u. inScopeStr u (URLFilters c)}"
  by (auto simp: render_page_def Let_def Duplicate_def emitLine_def WriteToFile_def
      split: if_splits)

lemma render_network_emitted:
  "\<exists>new. emitted (render_network c reqURL w) = emitted w @ new
       \<and> set new \<subseteq> {(''network'', ''[network] - '' @ u) | u. inScopeStr u (URLFilters c)}"
  by (auto simp: render_network_def Let_def Duplicate_def emitLine_def WriteToFile_def
      split: if_splits)

lemma render_loop_emitted:
  "\<exists>new. emitted (render_loop c budget evs w) = emitted w @ new
       \<and> set new \<subseteq> {(''render'', ''[render] - '' @ u) | u. inScopeStr u (URLFilters c)}
                   \<union> {(''network'', ''[network] - '' @ u) | u. inScopeStr u (URLFilters c)}"
  (is "\<exists>new. _ \<and> set new \<subseteq> ?R \<union> ?N")
proof (induction evs arbitrary: budget w)
  case Nil
  then show ?case by simp
next
  case (Cons ev evs)
  show ?case
  proof (cases "budget > 0")
    case False
    then show ?thesis by simp
  next
    case True
    show ?thesis
    proof (cases ev)
      case (Dequeued u)
      obtain b w' where rp: "render_page c u w = (b, w')" by (cases "render_page c u w")
      from render_page_emitted[OF rp] obtain n1 where
        n1: "emitted w' = emitted w @ n1" "set n1 \<subseteq> ?R" by blast
      from Cons.IH[of "if b then budget - 1 else budget" w'] obtain n2 where
        n2: "emitted (render_loop c (if b then budget - 1 else budget) evs w') = emitted w' @ n2"
        "set n2 \<subseteq> ?R \<union> ?N" by blast
      from rp Dequeued True have "render_loop c budget (ev # evs) w
          = render_loop c (if b then budget - 1 else budget) evs w'" by simp
      with n1 n2 have "emitted (render_loop c budget (ev # evs) w) = emitted w @ (n1 @ n2)
          \<and> set (n1 @ n2) \<subseteq> ?R \<union> ?N" by auto
      then show ?thesis by blast
    next
      case IdleTick
      with True Cons.IH[of budget w] show ?thesis by simp
    next
      case (RequestWillBeSent reqURL)
      from render_network_emitted[of c reqURL w] obtain n1 where
        n1: "emitted (render_network c reqURL w) = emitted w @ n1" "set n1 \<subseteq> ?N" by blast
      from Cons.IH[of budget "render_network c reqURL w"] obtain n2 where
        n2: "emitted (render_loop c budget evs (render_network c reqURL w))
             = emitted (render_network c reqURL w) @ n2" "set n2 \<subseteq> ?R \<union> ?N" by blast
      from RequestWillBeSent True n1 n2
      have "emitted (render_loop c budget (ev # evs) w) = emitted w @ (n1 @ n2)
          \<and> set (n1 @ n2) \<subseteq> ?R \<union> ?N" by auto
      then show ?thesis by blast
    qed
  qed
qed

lemma normalizeTarget_bare:
  assumes "normalizeTarget etld1 target = (siteURL, Some so)"
  shows "AllowSubs so \<and> \<not> Contains (TrimSpace target) ''://''
       \<and> Parse (''https://'' @ TrimSpace target) = Some siteURL
       \<and> Domain so = (if GetDomain etld1 siteURL = [] then Host siteURL
                       else GetDomain etld1 siteURL)"
  using assms
  by (auto simp: normalizeTarget_def Let_def split: if_splits option.splits)

lemma NewCrawler_URLFilters_override:
  "NewCrawler_URLFilters ef site0 domain0 (Some so) flagSubs0 None [] =
     [if AllowSubs so then scope_subs (Domain so) else scope_host (Domain so)]"
  by (simp add: NewCrawler_URLFilters_def)


lemma linkfinder_emit_visit_emitted:
  "\<exists>new. emitted (linkfinder_emit_visit c source u w) = emitted w @ new
     \<and> set new \<subseteq> {(''linkfinder'', linkfinder_line c source u)}"
  by (auto simp: linkfinder_emit_visit_def linkfinder_line_def Let_def Duplicate_def
      emitLine_def WriteToFile_def split: option.splits)

lemma feedLinkfinder_emitted:
  "\<exists>new. emitted (feedLinkfinder c s t src w) = emitted w @ new
     \<and> set new \<subseteq> {''javascript''} \<times> UNIV"
  by (auto simp: feedLinkfinder_def Let_def Duplicate_def emitLine_def WriteToFile_def
      split: option.splits)

lemma linkfinder_token_emitted:
  "\<exists>new. emitted (linkfinder_token c base source feed relPath w) = emitted w @ new
     \<and> set new \<subseteq> {(''linkfinder'', linkfinder_line c source (canonicalizeURL u)) | u.
                       InScope u (URLFilters c)} \<union> {''javascript''} \<times> UNIV"
proof -
  have a: "\<And>u. InScope u (URLFilters c) \<Longrightarrow>
     \<exists>new. emitted (linkfinder_emit_visit c source (canonicalizeURL u) w) = emitted w @ new
     \<and> set new \<subseteq> {(''linkfinder'', linkfinder_line c source (canonicalizeURL u)) | u.
                       InScope u (URLFilters c)} \<union> {''javascript''} \<times> UNIV"
  proof -
    fix u assume i: "InScope u (URLFilters c)"
    from linkfinder_emit_visit_emitted[of c source "canonicalizeURL u" w] obtain new where
      n: "emitted (linkfinder_emit_visit c source (canonicalizeURL u) w) = emitted w @ new"
      "set new \<subseteq> {(''linkfinder'', linkfinder_line c source (canonicalizeURL u))}" by blast
    from n(2) i have "set new \<subseteq> {(''linkfinder'', linkfinder_line c source (canonicalizeURL u)) | u.
                       InScope u (URLFilters c)} \<union> {''javascript''} \<times> UNIV" by blast
    with n(1) show "\<exists>new. emitted (linkfinder_emit_visit c source (canonicalizeURL u) w) = emitted w @ new
     \<and> set new \<subseteq> {(''linkfinder'', linkfinder_line c source (canonicalizeURL u)) | u.
                       InScope u (URLFilters c)} \<union> {''javascript''} \<times> UNIV" by blast
  qed
  have b: "\<And>s t src. \<exists>new. emitted (feedLinkfinder c s t src w) = emitted w @ new
     \<and> set new \<subseteq> {(''linkfinder'', linkfinder_line c source (canonicalizeURL u)) | u.
                       InScope u (URLFilters c)} \<union> {''javascript''} \<times> UNIV"
    using feedLinkfinder_emitted[of c _ _ _ w] by blast
  have z: "\<exists>new. emitted w = emitted w @ new
     \<and> set new \<subseteq> {(''linkfinder'', linkfinder_line c source (canonicalizeURL u)) | u.
                       InScope u (URLFilters c)} \<union> {''javascript''} \<times> UNIV"
    by simp
  show ?thesis
    unfolding linkfinder_token_def Let_def
    by (auto split: option.splits simp del: ex_simps intro: a b z)
qed


lemma inScopeStr_iff:
  "inScopeStr s filters \<longleftrightarrow> (\<exists>u. Parse s = Some u \<and> InScope u filters)"
  by (auto simp: inScopeStr_def split: option.splits)

(*C2THEOREM*)

text \<open>
  A script served from another domain is printed as a \<^verbatim>\<open>javascript\<close> record during the
  run for \<^verbatim>\<open>example.com\<close>: its host is neither \<^verbatim>\<open>example.com\<close> nor ends in
  \<^verbatim>\<open>.example.com\<close>.
\<close>

theorem bare_domain_scope_counterexample:
  "emitted (OnHTML (crawler_of default_flags ''example.com'')
      \<lparr>Name = ''script'', AbsoluteURL_href = [], AbsoluteURL_src = ''https://cdn.other.net/app.js'',
       Request_URL = must_parse ''https://example.com/''\<rparr> emptyWorld)
     = [(''javascript'', ''[javascript] - https://cdn.other.net/app.js'')]
   \<and> Hostname (must_parse ''https://cdn.other.net/app.js'') = ''cdn.other.net''
   \<and> ''cdn.other.net'' \<noteq> ''example.com''
   \<and> \<not> HasSuffix ''cdn.other.net'' ''.example.com''"
  by code_simp

(*C2WITNESS*)

subsection \<open>Canonicalization\<close>

text \<open>
  Claim C6, at a failing input. \<^verbatim>\<open>canonicalizeURL\<close> drops a default port by writing
  \<^verbatim>\<open>Hostname()\<close> into \<^verbatim>\<open>Host\<close>, and \<^verbatim>\<open>Hostname()\<close> strips the brackets of an IPv6
  literal. The canonical form of \<^verbatim>\<open>http://[::80]:80/\<close> is therefore \<^verbatim>\<open>http://::80/\<close>,
  which parses with host \<^verbatim>\<open>:\<close> and port 80, so that canonicalizing once more gives
  \<^verbatim>\<open>http://:/\<close>.
\<close>

theorem canonicalize_twice_ipv6:
  "Canonicalize ''http://[::80]:80/'' = Some ''http://::80/''
   \<and> Canonicalize ''http://::80/'' = Some ''http://:/''"
  by code_simp

text \<open>
  On the struct, the edit of \<^verbatim>\<open>canonicalizeURL\<close> is idempotent whenever the host name
  holds no colon, that is, for every host but an IPv6 literal.
\<close>

lemma LastIndex_None: "LastIndex s c = None \<longleftrightarrow> c \<notin> set s"
  by (induction s) (auto split: option.splits)

lemma splitHostPort_no_colon: "CHR '':'' \<notin> set h \<Longrightarrow> snd (splitHostPort h) = []"
  by (simp add: splitHostPort_def LastIndex_None[THEN iffD2])

lemma canonicalizeURL_u2_eq:
  "canonicalizeURL_u2 u =
     u\<lparr>Fragment := [], Host := (if default_port u then Hostname u else Host u),
       Path := (if Path u = [] then ''/'' else Path u)\<rparr>"
  by (simp add: canonicalizeURL_u2_def Let_def default_port_def Port_def Hostname_def)

lemma canonicalizeURL_u2_idem:
  assumes "CHR '':'' \<notin> set (Hostname u)"
  shows "canonicalizeURL_u2 (canonicalizeURL_u2 u) = canonicalizeURL_u2 u"
proof -
  let ?v = "canonicalizeURL_u2 u"
  have sv: "Scheme ?v = Scheme u" by (simp add: canonicalizeURL_u2_eq)
  have fv: "Fragment ?v = []" by (simp add: canonicalizeURL_u2_eq)
  have pv: "Path ?v \<noteq> []" by (simp add: canonicalizeURL_u2_eq)
  have hv: "Host ?v = (if default_port u then Hostname u else Host u)"
    by (simp add: canonicalizeURL_u2_eq)
  have nd: "\<not> default_port ?v"
  proof (cases "default_port u")
    case True
    with hv have "Host ?v = Hostname u" by simp
    with assms have "Port ?v = []" by (simp add: Port_def splitHostPort_no_colon)
    then show ?thesis by (simp add: default_port_def)
  next
    case False
    with hv have "Host ?v = Host u" by simp
    then have "Port ?v = Port u" by (simp add: Port_def)
    with False sv show ?thesis by (simp add: default_port_def)
  qed
  have "canonicalizeURL_u2 ?v = ?v\<lparr>Fragment := [], Host := Host ?v, Path := Path ?v\<rparr>"
    by (subst canonicalizeURL_u2_eq) (simp only: nd pv if_False)
  also have "\<dots> = ?v" using fv by simp
  finally show ?thesis .
qed

end
